theory Spec2Isabelle
  imports Complex_Main "HOL-Library.Word"
begin

section \<open>Tensors\<close>

text \<open>
  The module \<^verbatim>\<open>rasa/utils/tensorflow/layers_utils.py\<close> consists of five functions,
  each a short composition of TensorFlow operators. A tensor is modelled the way the
  runtime stores it: a shape (the list of axis sizes) and the elements in one flat buffer
  in row-major order. The element type is a parameter: \<open>int\<close> for integer tensors,
  \<open>bool\<close> for the result of a comparison, \<open>float32\<close> (below) for floating point.
\<close>

datatype 'a tensor = Tensor (shape: "nat list") (vals: "'a list")

definition rank :: "'a tensor \<Rightarrow> nat" where
  "rank t = length (shape t)"

text \<open>The invariant of every tensor of the runtime: the buffer holds one element per position.\<close>

definition well_formed :: "'a tensor \<Rightarrow> bool" where
  "well_formed t = (length (vals t) = prod_list (shape t))"

text \<open>
  Failures. \<open>IndexError\<close> is Python's own (indexing a \<^verbatim>\<open>TensorShape\<close> out of range);
  \<open>InvalidArgumentError\<close> is what the operators of the runtime raise when their
  arguments do not fit, \<open>UnimplementedError\<close> when a kernel does not support the rank of
  its input; \<open>TypeError\<close> and \<open>ValueError\<close> come from the conversion of a Python
  scalar to the element type of a tensor.
\<close>

datatype tf_error =
  IndexError | InvalidArgumentError | UnimplementedError | TypeError | ValueError

text \<open>
  Row-major addressing: \<open>flat_index s idx\<close> is the offset in the buffer of the element
  with multi-index \<open>idx\<close> in a tensor of shape \<open>s\<close>; \<open>valid_index\<close> says that the
  multi-index lies inside the shape; \<open>get\<close> reads the element.
\<close>

fun flat_index :: "nat list \<Rightarrow> nat list \<Rightarrow> nat" where
  "flat_index (d # ds) (i # is) = i * prod_list ds + flat_index ds is"
| "flat_index _ _ = 0"

definition valid_index :: "nat list \<Rightarrow> nat list \<Rightarrow> bool" where
  "valid_index s idx = list_all2 (<) idx s"

definition get :: "'a tensor \<Rightarrow> nat list \<Rightarrow> 'a" where
  "get t idx = vals t ! flat_index (shape t) idx"

text \<open>\<open>blocks k m xs\<close>: the first \<open>k\<close> consecutive blocks of \<open>m\<close> elements of a buffer.\<close>

definition blocks :: "nat \<Rightarrow> nat \<Rightarrow> 'a list \<Rightarrow> 'a list list" where
  "blocks k m xs = map (\<lambda>i. take m (drop (i * m) xs)) [0..<k]"

section \<open>The operators of the runtime\<close>

subsection \<open>\<^verbatim>\<open>tf.reshape\<close>\<close>

text \<open>
  \<^verbatim>\<open>tf.reshape(x, sizes)\<close> keeps the buffer and replaces the shape. At most one
  requested size may be \<open>-1\<close>; it is inferred. The inference follows the Reshape kernel:
  the product of the requested sizes counts the positive ones only; if a requested size
  is zero, the zero-size axes of the input are left out of the input's element count as
  well, so that the other axes can still be inferred; the missing size is the quotient,
  and unless an input axis was left out the division must be exact. In the end the new
  shape must hold as many elements as the input.
\<close>

definition tf_reshape :: "'a tensor \<Rightarrow> int list \<Rightarrow> tf_error + 'a tensor" where
  "tf_reshape x sizes =
     (if 1 < length (filter (\<lambda>s. s = - 1) sizes) then Inl InvalidArgumentError
      else if list_ex (\<lambda>s. s < - 1) sizes then Inl InvalidArgumentError
      else
        let product = prod_list (map nat (filter (\<lambda>s. 0 < s) sizes));
            sizes_has_zero_dim = list_ex (\<lambda>s. s = 0) sizes;
            input_num_elements =
              prod_list (filter (\<lambda>d. if sizes_has_zero_dim then 0 < d else True) (shape x));
            input_has_zero_dim = (sizes_has_zero_dim \<and> list_ex (\<lambda>d. d = 0) (shape x));
            missing = input_num_elements div product;
            new_shape = map (\<lambda>s. if s = - 1 then missing else nat s) sizes
        in if list_ex (\<lambda>s. s = - 1) sizes \<and> (if input_has_zero_dim then False
                                              else product * missing \<noteq> input_num_elements)
           then Inl InvalidArgumentError
           else if prod_list new_shape \<noteq> prod_list (shape x) then Inl InvalidArgumentError
           else Inr (Tensor new_shape (vals x)))"

subsection \<open>Elementwise binary operators\<close>

text \<open>
  A binary operator works position by position when both shapes are equal. Otherwise the
  shapes are broadcast: aligned at the last axis, an axis of size 1 is stretched to the
  size of the other operand, and two sizes that differ and are both not 1 are an error.
\<close>

fun broadcast_rev :: "nat list \<Rightarrow> nat list \<Rightarrow> nat list option" where
  "broadcast_rev [] bs = Some bs"
| "broadcast_rev as [] = Some as"
| "broadcast_rev (a # as) (b # bs) =
     (if a = b then map_option ((#) a) (broadcast_rev as bs)
      else if b = 1 then map_option ((#) a) (broadcast_rev as bs)
      else if a = 1 then map_option ((#) b) (broadcast_rev as bs)
      else None)"

definition broadcast_shapes :: "nat list \<Rightarrow> nat list \<Rightarrow> nat list option" where
  "broadcast_shapes s t = map_option rev (broadcast_rev (rev s) (rev t))"

fun indices :: "nat list \<Rightarrow> nat list list" where
  "indices [] = [[]]"
| "indices (d # ds) = concat (map (\<lambda>i. map ((#) i) (indices ds)) [0..<d])"

definition broadcast_to :: "'a tensor \<Rightarrow> nat list \<Rightarrow> 'a tensor" where
  "broadcast_to x target =
     Tensor target
       (map (\<lambda>idx. get x (map2 (\<lambda>d i. if d = 1 then 0 else i) (shape x)
                                (drop (length target - rank x) idx)))
            (indices target))"

definition tf_binary :: "('a \<Rightarrow> 'a \<Rightarrow> 'b) \<Rightarrow> 'a tensor \<Rightarrow> 'a tensor \<Rightarrow> tf_error + 'b tensor" where
  "tf_binary f x y =
     (if shape x = shape y then Inr (Tensor (shape x) (map2 f (vals x) (vals y)))
      else case broadcast_shapes (shape x) (shape y) of
             None \<Rightarrow> Inl InvalidArgumentError
           | Some s \<Rightarrow> Inr (Tensor s (map2 f (vals (broadcast_to x s)) (vals (broadcast_to y s)))))"

subsection \<open>Shapes as tensors, \<^verbatim>\<open>tf.expand_dims\<close>, \<^verbatim>\<open>tf.zeros_like\<close>, \<^verbatim>\<open>tf.concat\<close>\<close>

text \<open>\<^verbatim>\<open>tf.shape(x)\<close>: the shape as a vector of integers.\<close>

definition tf_shape :: "'a tensor \<Rightarrow> int tensor" where
  "tf_shape x = Tensor [rank x] (map int (shape x))"

text \<open>A \<^verbatim>\<open>TensorShape\<close> (a list of sizes) converted to a vector, as an operand of the runtime.\<close>

definition shape_as_tensor :: "nat list \<Rightarrow> int tensor" where
  "shape_as_tensor s = Tensor [length s] (map int s)"

text \<open>\<^verbatim>\<open>tf.shape(t)[0]\<close>: reading position 0 of a vector without elements is an error.\<close>

definition shape_at_0 :: "'a tensor \<Rightarrow> tf_error + int" where
  "shape_at_0 t = (case shape t of [] \<Rightarrow> Inl InvalidArgumentError | d # _ \<Rightarrow> Inr (int d))"

text \<open>\<^verbatim>\<open>tf.expand_dims(t, 0)\<close> and \<^verbatim>\<open>tf.expand_dims(t, -1)\<close>: a new axis of size 1, same buffer.\<close>

definition tf_expand_dims_first :: "'a tensor \<Rightarrow> 'a tensor" where
  "tf_expand_dims_first t = Tensor (1 # shape t) (vals t)"

definition tf_expand_dims_last :: "'a tensor \<Rightarrow> 'a tensor" where
  "tf_expand_dims_last t = Tensor (shape t @ [1]) (vals t)"

definition tf_zeros_like :: "int tensor \<Rightarrow> int tensor" where
  "tf_zeros_like t = Tensor (shape t) (map (\<lambda>_. 0) (vals t))"

text \<open>
  \<^verbatim>\<open>tf.concat([a, b], -1)\<close>: both operands have at least one axis and agree on all axes
  but the last; every row of \<open>a\<close> is followed by the row of \<open>b\<close> at the same position.
\<close>

definition tf_concat_last :: "'a tensor \<Rightarrow> 'a tensor \<Rightarrow> tf_error + 'a tensor" where
  "tf_concat_last a b =
     (if shape a = [] then Inl InvalidArgumentError
      else if shape b = [] then Inl InvalidArgumentError
      else if butlast (shape a) \<noteq> butlast (shape b) then Inl InvalidArgumentError
      else
        let k = prod_list (butlast (shape a)); la = last (shape a); lb = last (shape b)
        in Inr (Tensor (butlast (shape a) @ [la + lb])
                  (concat (map2 (@) (blocks k la (vals a)) (blocks k lb (vals b))))))"

subsection \<open>Floating point\<close>

text \<open>
  A \<^verbatim>\<open>float32\<close> is not-a-number, an infinity, or a number; a number is kept as the
  rational it denotes. Every operation computes exactly and then rounds to the nearest
  number with a significand of 24 bits, ties to the even significand; a result of
  magnitude \<open>2 ^ 128\<close> or more is an infinity.

  \<open>f32_exponent q\<close> is the largest exponent \<open>e\<close> between \<open>-126\<close> and \<open>127\<close> with
  \<open>2 ^ e \<le> \<bar>q\<bar>\<close>, and \<open>-126\<close> if there is none (the subnormal numbers); the unit in
  the last place is \<open>2 ^ (e - 23)\<close>.
\<close>

datatype float32 = NaN | PosInf | NegInf | Float rat

fun f32_exponent_from :: "nat \<Rightarrow> int \<Rightarrow> rat \<Rightarrow> int" where
  "f32_exponent_from 0 e q = e"
| "f32_exponent_from (Suc k) e q =
     (if power_int 2 e \<le> q then e else f32_exponent_from k (e - 1) q)"

definition f32_exponent :: "rat \<Rightarrow> int" where
  "f32_exponent q = f32_exponent_from 253 127 \<bar>q\<bar>"

definition round_half_even :: "rat \<Rightarrow> int" where
  "round_half_even z =
     (let f = \<lfloor>z\<rfloor>; r = z - of_int f
      in if r < 1 / 2 then f else if 1 / 2 < r then f + 1 else if even f then f else f + 1)"

definition round_f32 :: "rat \<Rightarrow> float32" where
  "round_f32 q =
     (let ulp = power_int 2 (f32_exponent q - 23);
          r = of_int (round_half_even (q / ulp)) * ulp
      in if 2 ^ 128 \<le> r then PosInf else if r \<le> - (2 ^ 128) then NegInf else Float r)"

fun float_add :: "float32 \<Rightarrow> float32 \<Rightarrow> float32" where
  "float_add (Float a) (Float b) = round_f32 (a + b)"
| "float_add NaN _ = NaN"
| "float_add _ NaN = NaN"
| "float_add PosInf NegInf = NaN"
| "float_add NegInf PosInf = NaN"
| "float_add PosInf _ = PosInf"
| "float_add _ PosInf = PosInf"
| "float_add NegInf _ = NegInf"
| "float_add _ NegInf = NegInf"

fun float_div :: "float32 \<Rightarrow> float32 \<Rightarrow> float32" where
  "float_div (Float a) (Float b) =
     (if b = 0 then (if a = 0 then NaN else if 0 < a then PosInf else NegInf)
      else round_f32 (a / b))"
| "float_div NaN _ = NaN"
| "float_div _ NaN = NaN"
| "float_div (Float a) _ = Float 0"
| "float_div PosInf (Float b) = (if 0 \<le> b then PosInf else NegInf)"
| "float_div NegInf (Float b) = (if 0 \<le> b then NegInf else PosInf)"
| "float_div _ _ = NaN"

text \<open>The conversion of a count to \<^verbatim>\<open>float32\<close> rounds as well.\<close>

definition float_of_nat :: "nat \<Rightarrow> float32" where
  "float_of_nat n = round_f32 (of_nat n)"

text \<open>The comparison \<^verbatim>\<open>==\<close> of floating-point elements: \<open>NaN\<close> differs from everything.\<close>

fun float_equal :: "float32 \<Rightarrow> float32 \<Rightarrow> bool" where
  "float_equal NaN _ = False"
| "float_equal _ NaN = False"
| "float_equal a b = (a = b)"

subsection \<open>Python scalars and element types\<close>

text \<open>
  A Python scalar is an \<^verbatim>\<open>int\<close> or a \<^verbatim>\<open>float\<close>. An element type of the runtime
  is given by its zero and by the conversion of a Python scalar to it. The conversion to
  \<^verbatim>\<open>int32\<close> refuses every \<^verbatim>\<open>float\<close> and every \<^verbatim>\<open>int\<close> outside the range of
  32 bits; the conversion to \<^verbatim>\<open>float32\<close> rounds.
\<close>

datatype py_float = PyNaN | PyPosInf | PyNegInf | PyFinite rat

datatype py_scalar = PyInt int | PyFloat py_float

text \<open>\<^verbatim>\<open>value == 0\<close> in Python.\<close>

fun py_is_zero :: "py_scalar \<Rightarrow> bool" where
  "py_is_zero (PyInt i) = (i = 0)"
| "py_is_zero (PyFloat (PyFinite q)) = (q = 0)"
| "py_is_zero (PyFloat _) = False"

record 'a dtype =
  zero_elem :: 'a
  from_python :: "py_scalar \<Rightarrow> tf_error + 'a"

fun int32_from_python :: "py_scalar \<Rightarrow> tf_error + int" where
  "int32_from_python (PyInt i) =
     (if - (2 ^ 31) \<le> i \<and> i < 2 ^ 31 then Inr i else Inl ValueError)"
| "int32_from_python (PyFloat _) = Inl TypeError"

fun float32_from_python :: "py_scalar \<Rightarrow> tf_error + float32" where
  "float32_from_python (PyInt i) = Inr (round_f32 (of_int i))"
| "float32_from_python (PyFloat (PyFinite q)) = Inr (round_f32 q)"
| "float32_from_python (PyFloat PyNaN) = Inr NaN"
| "float32_from_python (PyFloat PyPosInf) = Inr PosInf"
| "float32_from_python (PyFloat PyNegInf) = Inr NegInf"

definition dtype_int32 :: "int dtype" where
  "dtype_int32 = \<lparr>zero_elem = 0, from_python = int32_from_python\<rparr>"

definition dtype_float32 :: "float32 dtype" where
  "dtype_float32 = \<lparr>zero_elem = Float 0, from_python = float32_from_python\<rparr>"

subsection \<open>\<^verbatim>\<open>tf.pad\<close> with mode \<^verbatim>\<open>CONSTANT\<close>\<close>

text \<open>
  The kernel supports inputs of rank at most 8 and checks that first. \<open>paddings\<close> is an
  integer tensor of shape \<open>(rank x, 2)\<close>: row \<open>k\<close> holds how many positions are added
  on axis \<open>k\<close> before and after the content; no entry may be negative. The buffer of the
  result is built axis by axis: the padding before, then each block of the content padded
  on the remaining axes, then the padding after.
\<close>

definition padded_shape :: "nat list \<Rightarrow> (nat \<times> nat) list \<Rightarrow> nat list" where
  "padded_shape ds ps = map2 (\<lambda>d p. fst p + d + snd p) ds ps"

fun pad_data :: "nat list \<Rightarrow> (nat \<times> nat) list \<Rightarrow> 'a \<Rightarrow> 'a list \<Rightarrow> 'a list" where
  "pad_data (d # ds) (p # ps) v xs =
     replicate (fst p * prod_list (padded_shape ds ps)) v
     @ concat (map (pad_data ds ps v) (blocks d (prod_list ds) xs))
     @ replicate (snd p * prod_list (padded_shape ds ps)) v"
| "pad_data _ _ v xs = xs"

definition tf_pad :: "'a tensor \<Rightarrow> int tensor \<Rightarrow> 'a \<Rightarrow> tf_error + 'a tensor" where
  "tf_pad x paddings v =
     (if 8 < rank x then Inl UnimplementedError
      else if shape paddings \<noteq> [rank x, 2] then Inl InvalidArgumentError
      else if list_ex (\<lambda>p. p < 0) (vals paddings) then Inl InvalidArgumentError
      else
        let ps = map (\<lambda>row. (nat (row ! 0), nat (row ! 1))) (blocks (rank x) 2 (vals paddings))
        in Inr (Tensor (padded_shape (shape x) ps) (pad_data (shape x) ps v (vals x))))"

text \<open>
  \<^verbatim>\<open>tf.pad(x, paddings, "CONSTANT", constant_values=value)\<close> takes a Python scalar.
  If it equals 0 the kernel fills with the zero of the element type of \<open>x\<close>; otherwise
  the scalar is first converted to the element type, which can fail.
\<close>

definition constant_value :: "'a dtype \<Rightarrow> py_scalar \<Rightarrow> tf_error + 'a" where
  "constant_value dt v = (if py_is_zero v then Inr (zero_elem dt) else from_python dt v)"

definition tf_pad_constant ::
  "'a dtype \<Rightarrow> 'a tensor \<Rightarrow> int tensor \<Rightarrow> py_scalar \<Rightarrow> tf_error + 'a tensor" where
  "tf_pad_constant dt x paddings v =
     (case constant_value dt v of
        Inl e \<Rightarrow> Inl e
      | Inr c \<Rightarrow> tf_pad x paddings c)"

subsection \<open>\<^verbatim>\<open>tf.tile\<close>\<close>

text \<open>
  \<open>multiples\<close> has one entry per axis; the content is repeated that many times along
  the axis.
\<close>

fun tile_data :: "nat list \<Rightarrow> nat list \<Rightarrow> 'a list \<Rightarrow> 'a list" where
  "tile_data (d # ds) (m # ms) xs =
     concat (replicate m (concat (map (tile_data ds ms) (blocks d (prod_list ds) xs))))"
| "tile_data _ _ xs = xs"

definition tf_tile :: "'a tensor \<Rightarrow> int list \<Rightarrow> tf_error + 'a tensor" where
  "tf_tile x multiples =
     (if length multiples \<noteq> rank x then Inl InvalidArgumentError
      else if list_ex (\<lambda>m. m < 0) multiples then Inl InvalidArgumentError
      else Inr (Tensor (map2 (*) (shape x) (map nat multiples))
                  (tile_data (shape x) (map nat multiples) (vals x))))"

subsection \<open>\<^verbatim>\<open>tf.gather\<close> with \<^verbatim>\<open>batch_dims=1\<close>\<close>

text \<open>
  The gathered axis is axis 1. \<open>params\<close> has shape \<open>(b, r, \<dots>)\<close> and \<open>indices\<close> has
  shape \<open>(b, \<dots>)\<close> with the same \<open>b\<close>. For batch \<open>i\<close> and every index \<open>c\<close> at a position
  of \<open>indices[i]\<close>, the result holds \<open>params[i][c]\<close> at that position. An index outside
  \<open>[0, r)\<close> is an error.
\<close>

definition tf_gather_batch1 :: "'a tensor \<Rightarrow> int tensor \<Rightarrow> tf_error + 'a tensor" where
  "tf_gather_batch1 params ids =
     (case shape params of
        b # r # inner \<Rightarrow>
          (case shape ids of
             b' # rest \<Rightarrow>
               if b \<noteq> b' then Inl InvalidArgumentError
               else if list_ex (\<lambda>c. c < 0) (vals ids) then Inl InvalidArgumentError
               else if list_ex (\<lambda>c. int r \<le> c) (vals ids) then Inl InvalidArgumentError
               else
                 let m = prod_list inner; k = prod_list rest
                 in Inr (Tensor (b # rest @ inner)
                      (concat (map (\<lambda>i. concat (map (\<lambda>j.
                           take m (drop ((i * r + nat (vals ids ! (i * k + j))) * m) (vals params)))
                         [0..<k])) [0..<b])))
           | [] \<Rightarrow> Inl InvalidArgumentError)
      | _ \<Rightarrow> Inl InvalidArgumentError)"

subsection \<open>\<^verbatim>\<open>tf.zeros\<close>, \<^verbatim>\<open>tf.cast\<close>, \<^verbatim>\<open>tf.reduce_mean\<close>, \<^verbatim>\<open>tf.math.equal\<close>\<close>

text \<open>\<^verbatim>\<open>tf.zeros(dims)\<close>: the default element type is \<^verbatim>\<open>float32\<close>; a negative size is an error.\<close>

definition tf_zeros :: "int list \<Rightarrow> tf_error + float32 tensor" where
  "tf_zeros dims =
     (if list_ex (\<lambda>d. d < 0) dims then Inl InvalidArgumentError
      else Inr (Tensor (map nat dims) (replicate (prod_list (map nat dims)) (Float 0))))"

definition tf_cast_float32 :: "bool tensor \<Rightarrow> float32 tensor" where
  "tf_cast_float32 t = Tensor (shape t) (map (\<lambda>b. if b then Float 1 else Float 0) (vals t))"

text \<open>
  \<^verbatim>\<open>tf.reduce_mean(t)\<close>: the sum of all elements divided by their number, as a scalar.
  The runtime adds the elements in an order of its own, in blocks and lanes, and every
  addition rounds. The order is the parameter \<open>order\<close>, a tree of additions whose
  leaves are the positions of the buffer; \<open>valid_order\<close> says that every position is
  added once. The sum over no elements is zero. The sum is divided by the number of
  elements as a \<^verbatim>\<open>float32\<close>.
\<close>

datatype reduction = Leaf nat | Node reduction reduction

fun leaves :: "reduction \<Rightarrow> nat list" where
  "leaves (Leaf i) = [i]"
| "leaves (Node l r) = leaves l @ leaves r"

definition valid_order :: "reduction \<Rightarrow> nat \<Rightarrow> bool" where
  "valid_order order n = (if n = 0 then True else sort (leaves order) = [0..<n])"

fun reduce_sum :: "reduction \<Rightarrow> float32 list \<Rightarrow> float32" where
  "reduce_sum (Leaf i) xs = xs ! i"
| "reduce_sum (Node l r) xs = float_add (reduce_sum l xs) (reduce_sum r xs)"

definition tf_reduce_mean :: "reduction \<Rightarrow> float32 tensor \<Rightarrow> float32 tensor" where
  "tf_reduce_mean order t =
     Tensor [] [float_div (if vals t = [] then Float 0 else reduce_sum order (vals t))
                          (float_of_nat (length (vals t)))]"

text \<open>
  \<^verbatim>\<open>tf.math.equal(x, y)\<close>: the binary operator of the elements' own \<^verbatim>\<open>==\<close>, which is
  the parameter \<open>eq\<close>: \<open>(=)\<close> for integers, \<open>float_equal\<close> for floating point.
\<close>

definition tf_equal :: "('a \<Rightarrow> 'a \<Rightarrow> bool) \<Rightarrow> 'a tensor \<Rightarrow> 'a tensor \<Rightarrow> tf_error + bool tensor" where
  "tf_equal eq x y = tf_binary eq x y"

subsection \<open>\<^verbatim>\<open>tf.random.uniform\<close> with \<^verbatim>\<open>dtype=tf.int32\<close>\<close>

text \<open>
  \<open>minval\<close> is 0 by default and must be below \<open>maxval\<close>. The generator of the runtime
  is the parameter \<open>gen\<close>: \<open>gen k\<close> is the raw 32-bit sample it delivers for position
  \<open>k\<close> of the result. Every element is its sample reduced modulo the width of the range.
\<close>

definition tf_random_uniform_int32 ::
  "(nat \<Rightarrow> 32 word) \<Rightarrow> int list \<Rightarrow> 32 word \<Rightarrow> tf_error + int tensor" where
  "tf_random_uniform_int32 gen dims maxval =
     (if list_ex (\<lambda>d. d < 0) dims then Inl InvalidArgumentError
      else if sint maxval \<le> 0 then Inl InvalidArgumentError
      else Inr (Tensor (map nat dims)
                 (map (\<lambda>k. int (unat (gen k) mod nat (sint maxval)))
                      [0..<prod_list (map nat dims)])))"

section \<open>The functions of the module\<close>

subsection \<open>\<^verbatim>\<open>random_indices\<close>\<close>

text \<open>
  \<^verbatim>\<open>
  return (tf.random.uniform(shape=(batch_size, n), maxval=n_max, dtype=tf.int32)
          if n_max > 0 else tf.zeros((batch_size, n)))
  \<close>
  The three arguments are integer scalars of the runtime (\<^verbatim>\<open>int32\<close>). The result is an
  integer tensor on one branch and a floating-point tensor on the other.
\<close>

datatype index_tensor = Int32Tensor "int tensor" | Float32Tensor "float32 tensor"

definition random_indices ::
  "(nat \<Rightarrow> 32 word) \<Rightarrow> 32 word \<Rightarrow> 32 word \<Rightarrow> 32 word \<Rightarrow> tf_error + index_tensor" where
  "random_indices gen batch_size n n_max =
     (if 0 < sint n_max
      then map_sum id Int32Tensor (tf_random_uniform_int32 gen [sint batch_size, sint n] n_max)
      else map_sum id Float32Tensor (tf_zeros [sint batch_size, sint n]))"

subsection \<open>\<^verbatim>\<open>batch_flatten\<close>\<close>

text \<open>
  \<^verbatim>\<open>return tf.reshape(x, (-1, x.shape[-1]))\<close>. Indexing the shape of a tensor without
  axes with \<open>-1\<close> raises \<open>IndexError\<close> before the runtime is called.
\<close>

definition batch_flatten :: "'a tensor \<Rightarrow> tf_error + 'a tensor" where
  "batch_flatten x =
     (if shape x = [] then Inl IndexError
      else tf_reshape x [- 1, int (last (shape x))])"

subsection \<open>\<^verbatim>\<open>pad_right\<close>\<close>

text \<open>
  \<^verbatim>\<open>
  current_shape = tf.shape(x)
  right_padding = tf.expand_dims(tf.convert_to_tensor(target_shape - current_shape), -1)
  padding = tf.concat([tf.zeros_like(right_padding), right_padding], -1)
  return tf.pad(x, padding, "CONSTANT", constant_values=value)
  \<close>
  The difference of the two shapes is the runtime's subtraction of two vectors. The
  first argument of the model is the element type of \<open>x\<close>; \<open>value\<close> is a Python scalar.
\<close>

definition pad_right ::
  "'a dtype \<Rightarrow> 'a tensor \<Rightarrow> nat list \<Rightarrow> py_scalar \<Rightarrow> tf_error + 'a tensor" where
  "pad_right dt x target_shape v =
     (let current_shape = tf_shape x
      in case tf_binary (-) (shape_as_tensor target_shape) current_shape of
           Inl e \<Rightarrow> Inl e
         | Inr diff \<Rightarrow>
             let right_padding = tf_expand_dims_last diff
             in case tf_concat_last (tf_zeros_like right_padding) right_padding of
                  Inl e \<Rightarrow> Inl e
                | Inr padding \<Rightarrow> tf_pad_constant dt x padding v)"

subsection \<open>\<^verbatim>\<open>get_candidate_values\<close>\<close>

text \<open>
  \<^verbatim>\<open>
  tiled_x = tf.tile(tf.expand_dims(batch_flatten(x), 0),
                    (tf.shape(candidate_ids)[0], 1, 1))
  candidate_values = tf.gather(tiled_x, candidate_ids, batch_dims=1)
  return candidate_values
  \<close>
\<close>

definition get_candidate_values :: "'a tensor \<Rightarrow> int tensor \<Rightarrow> tf_error + 'a tensor" where
  "get_candidate_values x candidate_ids =
     (case batch_flatten x of
        Inl e \<Rightarrow> Inl e
      | Inr flat \<Rightarrow>
          (case shape_at_0 candidate_ids of
             Inl e \<Rightarrow> Inl e
           | Inr n \<Rightarrow>
               (case tf_tile (tf_expand_dims_first flat) [n, 1, 1] of
                  Inl e \<Rightarrow> Inl e
                | Inr tiled_x \<Rightarrow> tf_gather_batch1 tiled_x candidate_ids)))"

subsection \<open>\<^verbatim>\<open>reduce_mean_equal\<close>\<close>

text \<open>
  \<^verbatim>\<open>return tf.reduce_mean(tf.cast(tf.math.equal(x, y), tf.float32))\<close>. The first
  argument of the model is the order in which the runtime adds.
\<close>

definition reduce_mean_equal ::
  "reduction \<Rightarrow> ('a \<Rightarrow> 'a \<Rightarrow> bool) \<Rightarrow> 'a tensor \<Rightarrow> 'a tensor
     \<Rightarrow> tf_error + float32 tensor" where
  "reduce_mean_equal order eq x y =
     (case tf_equal eq x y of
        Inl e \<Rightarrow> Inl e
      | Inr matches \<Rightarrow> Inr (tf_reduce_mean order (tf_cast_float32 matches)))"

section \<open>Auxiliary facts\<close>

subsection \<open>Means of comparisons, symmetry of binary operators\<close>

lemma count_matches:
  assumes "length xs = length ys"
  shows "length (filter id (map2 eq xs ys)) = card {i. i < length xs \<and> eq (xs ! i) (ys ! i)}"
proof -
  have "{i. i < length (map2 eq xs ys) \<and> id (map2 eq xs ys ! i)}
          = {i. i < length xs \<and> eq (xs ! i) (ys ! i)}"
    using assms by auto
  then show ?thesis
    by (simp only: length_filter_conv_card)
qed

lemma broadcast_rev_Nil2: "broadcast_rev bs [] = Some bs"
  by (cases bs) simp_all

lemma broadcast_rev_commute: "broadcast_rev as bs = broadcast_rev bs as"
  by (induction as bs rule: broadcast_rev.induct) (auto simp: broadcast_rev_Nil2)

lemma broadcast_shapes_commute: "broadcast_shapes s t = broadcast_shapes t s"
  by (simp add: broadcast_shapes_def broadcast_rev_commute [of "rev s"])

lemma map2_commute: "(\<And>a b. f a b = f b a) \<Longrightarrow> map2 f xs ys = map2 f ys xs"
  by (induction xs arbitrary: ys) (auto split: list.splits simp: zip_Cons1)

lemma tf_binary_commute:
  assumes "\<And>a b. f a b = f b a"
  shows "tf_binary f x y = tf_binary f y x"
proof (cases "shape x = shape y")
  case True
  then show ?thesis
    using map2_commute [of f, OF assms] by (simp add: tf_binary_def)
next
  case False
  then have "shape y \<noteq> shape x" by simp
  then show ?thesis
    using False map2_commute [of f, OF assms] broadcast_shapes_commute [of "shape x" "shape y"]
    by (simp add: tf_binary_def split: option.splits)
qed

lemma float_equal_commute: "float_equal a b = float_equal b a"
  by (cases a; cases b) auto

subsection \<open>Rounding to \<^verbatim>\<open>float32\<close>\<close>

lemma f32_exponent_from_bounds:
  "e - int k \<le> f32_exponent_from k e q \<and> f32_exponent_from k e q \<le> e"
proof (induction k arbitrary: e)
  case 0
  then show ?case by simp
next
  case (Suc k)
  from Suc [of "e - 1"] show ?case by auto
qed

lemma f32_exponent_from_below:
  "f32_exponent_from k e q = e - int k \<or> power_int 2 (f32_exponent_from k e q) \<le> q"
proof (induction k arbitrary: e)
  case 0
  then show ?case by simp
next
  case (Suc k)
  from Suc [of "e - 1"] show ?case by auto
qed

lemma f32_exponent_range: "- 126 \<le> f32_exponent q \<and> f32_exponent q \<le> 127"
  using f32_exponent_from_bounds [of 127 253 "\<bar>q\<bar>"] by (simp add: f32_exponent_def)

lemma f32_exponent_below:
  "f32_exponent q = - 126 \<or> power_int 2 (f32_exponent q) \<le> \<bar>q\<bar>"
  using f32_exponent_from_below [of 253 127 "\<bar>q\<bar>"] by (simp add: f32_exponent_def)

lemma round_half_even_of_int: "round_half_even (of_int m) = m"
  by (simp add: round_half_even_def)



lemma ulp_small:
  assumes "e \<le> 23"
  shows "power_int (2 :: rat) (e - 23) = 1 / 2 ^ nat (23 - e)"
proof -
  have "e - 23 = - int (nat (23 - e))" using assms by simp
  then have "power_int (2 :: rat) (e - 23) = power_int 2 (- int (nat (23 - e)))" by simp
  also have "\<dots> = 1 / 2 ^ nat (23 - e)"
    by (simp only: power_int_minus_divide power_int_of_nat)
  finally show ?thesis .
qed

lemma round_f32_Float:
  assumes "ulp = power_int 2 (f32_exponent q - 23)"
    and "r = of_int (round_half_even (q / ulp)) * ulp"
    and "- (2 ^ 128) < r" and "r < 2 ^ 128"
  shows "round_f32 q = Float r"
  using assms(3,4) unfolding round_f32_def Let_def assms(1) [symmetric] assms(2) [symmetric]
  by (simp add: not_le)

lemma round_f32_scaled:
  assumes E: "f32_exponent q \<le> 23" and q: "q * 2 ^ nat (23 - f32_exponent q) = of_int m"
    and small: "\<bar>q\<bar> < 2 ^ 128"
  shows "round_f32 q = Float q"
proof (rule round_f32_Float)
  let ?N = "(2 :: rat) ^ nat (23 - f32_exponent q)"
  show "1 / ?N = power_int 2 (f32_exponent q - 23)"
    using ulp_small [OF E] by simp
  have "q / (1 / ?N) = of_int m" using q by simp
  then have "of_int (round_half_even (q / (1 / ?N))) * (1 / ?N) = of_int m / ?N"
    by (simp add: round_half_even_of_int)
  also have "\<dots> = q" using q [symmetric] by simp
  finally show "q = of_int (round_half_even (q / (1 / ?N))) * (1 / ?N)" by simp
  show "- (2 ^ 128) < q" "q < 2 ^ 128" using small by (simp_all add: abs_less_iff)
qed

lemma round_f32_nat:
  assumes "k \<le> 2 ^ 24"
  shows "round_f32 (of_nat k) = Float (of_nat k)"
proof -
  let ?q = "of_nat k :: rat"
  let ?E = "f32_exponent ?q"
  have le24: "?q \<le> 2 ^ 24"
  proof -
    have "?q \<le> of_nat (2 ^ 24)" using assms by (simp only: of_nat_le_iff)
    then show ?thesis by simp
  qed
  have "(2 :: rat) ^ 24 < 2 ^ 128" by simp
  then have k128: "\<bar>?q\<bar> < 2 ^ 128" using le24 by simp
  show ?thesis
  proof (cases "?E \<le> 23")
    case True
    have "?q * 2 ^ nat (23 - ?E) = of_int (int k * 2 ^ nat (23 - ?E))"
      by simp
    from round_f32_scaled [OF True this k128] show ?thesis .
  next
    case False
    then have "?E \<noteq> - 126" by simp
    then have low: "power_int 2 ?E \<le> ?q"
      using f32_exponent_below [of ?q] by simp
    have "power_int (2 :: rat) ?E \<le> power_int 2 24" using low le24 by simp
    then have "?E \<le> 24" by (rule power_int_le_imp_le_exp [rotated]) simp_all
    then have E: "?E = 24" using False by simp
    then have "(2 :: rat) ^ 24 \<le> ?q" using low by simp
    then have k: "?q = 2 ^ 24" using le24 by simp
    show ?thesis
    proof (rule round_f32_Float)
      show "(2 :: rat) = power_int 2 (?E - 23)" by (simp add: E)
      have "?q / 2 = of_int (2 ^ 23)" by (simp add: k)
      then have "round_half_even (?q / 2) = 2 ^ 23"
        by (simp only: round_half_even_of_int)
      then show "?q = of_int (round_half_even (?q / 2)) * 2" by (simp add: k)
      show "- (2 ^ 128) < ?q" "?q < 2 ^ 128" using k128 by (simp_all add: abs_less_iff)
    qed
  qed
qed


lemma round_f32_half: "round_f32 (1 / 2) = Float (1 / 2)"
  by code_simp

lemma round_f32_third: "round_f32 (1 / 3) = Float (11184811 / 33554432)"
  by code_simp

subsection \<open>Sums of zeros and ones in any order\<close>

lemma cast_nth:
  "i < length bs \<Longrightarrow>
     map (\<lambda>b. if b then Float 1 else Float 0) bs ! i = Float (of_nat (if bs ! i then 1 else 0))"
  by simp

lemma reduce_sum_count:
  assumes "\<And>i. i \<in> set (leaves t) \<Longrightarrow> i < length bs" and "length (leaves t) \<le> 2 ^ 24"
  shows "reduce_sum t (map (\<lambda>b. if b then Float 1 else Float 0) bs)
           = Float (of_nat (length (filter (\<lambda>i. bs ! i) (leaves t))))"
  using assms
proof (induction t)
  case (Leaf i)
  then show ?case by (simp add: cast_nth)
next
  case (Node l r)
  let ?c = "\<lambda>t. length (filter (\<lambda>i. bs ! i) (leaves t))"
  have l: "reduce_sum l (map (\<lambda>b. if b then Float 1 else Float 0) bs) = Float (of_nat (?c l))"
    using Node.IH(1) Node.prems by simp
  have r: "reduce_sum r (map (\<lambda>b. if b then Float 1 else Float 0) bs) = Float (of_nat (?c r))"
    using Node.IH(2) Node.prems by simp
  have "?c l + ?c r \<le> length (leaves l) + length (leaves r)"
    by (intro add_mono length_filter_le)
  also have "\<dots> \<le> 2 ^ 24" using Node.prems(2) by simp
  finally have "?c l + ?c r \<le> 2 ^ 24" .
  then have "round_f32 (of_nat (?c l + ?c r)) = Float (of_nat (?c l + ?c r))"
    by (rule round_f32_nat)
  then show ?case by (simp add: l r)
qed

lemma valid_order_leaves:
  assumes "valid_order t n" and "0 < n"
  shows "distinct (leaves t)" and "set (leaves t) = {0..<n}" and "length (leaves t) = n"
proof -
  have s: "sort (leaves t) = [0..<n]" using assms by (simp add: valid_order_def)
  have "distinct (sort (leaves t))" by (simp only: s distinct_upt)
  then show "distinct (leaves t)" by simp
  have "set (sort (leaves t)) = {0..<n}" by (simp only: s set_upt)
  then show "set (leaves t) = {0..<n}" by simp
  have "length (sort (leaves t)) = n" by (simp add: s)
  then show "length (leaves t) = n" by simp
qed

lemma valid_order_count:
  assumes "valid_order t n" and "0 < n"
  shows "length (filter P (leaves t)) = card {i. i < n \<and> P i}"
proof -
  have "length (filter P (leaves t)) = card ({i. P i} \<inter> set (leaves t))"
    using valid_order_leaves(1) [OF assms] by (rule distinct_length_filter)
  also have "{i. P i} \<inter> set (leaves t) = {i. i < n \<and> P i}"
    using valid_order_leaves(2) [OF assms] by auto
  finally show ?thesis .
qed

text \<open>The mean of the matches of two tensors of the same shape with at most \<open>2 ^ 24\<close> positions.\<close>

lemma mean_of_matches:
  assumes sh: "shape x = shape y" and lx: "length (vals x) = n" and ly: "length (vals y) = n"
    and ord: "valid_order order n" and n: "n \<le> 2 ^ 24"
  shows "reduce_mean_equal order eq x y =
           Inr (Tensor []
             [if n = 0 then NaN
              else round_f32 (of_nat (card {k. k < n \<and> eq (vals x ! k) (vals y ! k)})
                              / of_nat n)])"
proof -
  define bs where "bs = map2 eq (vals x) (vals y)"
  have lbs: "length bs = n" using lx ly by (simp add: bs_def)
  have eq: "tf_equal eq x y = Inr (Tensor (shape x) bs)"
    using sh by (simp add: tf_equal_def tf_binary_def bs_def)
  have res: "reduce_mean_equal order eq x y =
      Inr (Tensor [] [float_div
        (if bs = [] then Float 0
         else reduce_sum order (map (\<lambda>b. if b then Float 1 else Float 0) bs))
        (float_of_nat n)])"
    unfolding reduce_mean_equal_def eq sum.case tf_reduce_mean_def tf_cast_float32_def tensor.sel
    by (simp add: lbs)
  have fn: "float_of_nat n = Float (of_nat n)"
    unfolding float_of_nat_def using n by (rule round_f32_nat)
  show ?thesis
  proof (cases "n = 0")
    case True
    then have "bs = []" using lbs by simp
    moreover have "float_of_nat 0 = Float 0"
      using round_f32_nat [of 0] by (simp add: float_of_nat_def)
    ultimately show ?thesis using True by (simp add: res)
  next
    case False
    then have pos: "0 < n" by simp
    have ne: "bs \<noteq> []" using lbs False by auto
    have ll: "length (leaves order) = n" using valid_order_leaves(3) [OF ord pos] .
    have "reduce_sum order (map (\<lambda>b. if b then Float 1 else Float 0) bs)
            = Float (of_nat (length (filter (\<lambda>i. bs ! i) (leaves order))))"
    proof (rule reduce_sum_count)
      fix i assume "i \<in> set (leaves order)"
      then show "i < length bs" using valid_order_leaves(2) [OF ord pos] lbs by simp
    next
      show "length (leaves order) \<le> 2 ^ 24" using ll n by simp
    qed
    also have "length (filter (\<lambda>i. bs ! i) (leaves order)) = card {k. k < n \<and> bs ! k}"
      using valid_order_count [OF ord pos] .
    also have "{k. k < n \<and> bs ! k} = {k. k < n \<and> eq (vals x ! k) (vals y ! k)}"
      using lx ly by (auto simp: bs_def)
    finally have sum: "reduce_sum order (map (\<lambda>b. if b then Float 1 else Float 0) bs)
      = Float (of_nat (card {k. k < n \<and> eq (vals x ! k) (vals y ! k)}))" .
    show ?thesis using False ne by (simp add: res fn sum)
  qed
qed

subsection \<open>Buffers cut into blocks of equal length\<close>

lemma length_concat_uniform:
  "(\<And>b. b \<in> set bs \<Longrightarrow> length b = M) \<Longrightarrow> length (concat bs) = length bs * M"
  by (induction bs) simp_all

lemma nth_concat_uniform:
  "(\<And>b. b \<in> set bs \<Longrightarrow> length b = M) \<Longrightarrow> i < length bs \<Longrightarrow> f < M
     \<Longrightarrow> concat bs ! (i * M + f) = bs ! i ! f"
proof (induction bs arbitrary: i)
  case Nil
  then show ?case by simp
next
  case (Cons b bs)
  have lb: "length b = M" using Cons.prems(1) by simp
  show ?case
  proof (cases i)
    case 0
    then show ?thesis using lb Cons.prems(3) by (simp add: nth_append)
  next
    case (Suc k)
    then have "concat bs ! (k * M + f) = bs ! k ! f"
      using Cons.IH [of k] Cons.prems by simp
    then show ?thesis using lb Suc by (simp add: nth_append)
  qed
qed

lemma blocks_Suc: "blocks (Suc k) m xs = blocks k m xs @ [take m (drop (k * m) xs)]"
  by (simp add: blocks_def)

lemma concat_blocks_take: "concat (blocks k m xs) = take (k * m) xs"
proof (induction k)
  case 0
  then show ?case by (simp add: blocks_def)
next
  case (Suc k)
  have "take (k * m) xs @ take m (drop (k * m) xs) = take (k * m + m) xs"
    by (simp add: take_add)
  then show ?case using Suc by (simp add: blocks_Suc add.commute)
qed

lemma concat_blocks: "length xs = k * m \<Longrightarrow> concat (blocks k m xs) = xs"
  by (simp add: concat_blocks_take)

lemma length_blocks: "length (blocks k m xs) = k"
  by (simp add: blocks_def)

lemma nth_blocks: "i < k \<Longrightarrow> blocks k m xs ! i = take m (drop (i * m) xs)"
  by (simp add: blocks_def)

lemma block_fits:
  assumes "i < k" and "length xs = k * m"
  shows "i * m + m \<le> length xs"
proof -
  have "Suc i \<le> k" using assms(1) by simp
  then have "Suc i * m \<le> k * m" by (rule mult_le_mono1)
  then show ?thesis using assms(2) by (simp add: add.commute)
qed

lemma length_block:
  assumes "i < k" and "length xs = k * m"
  shows "length (take m (drop (i * m) xs)) = m"
  using block_fits [OF assms] by simp

lemma in_blocks_length:
  assumes "b \<in> set (blocks k m xs)" and "length xs = k * m"
  shows "length b = m"
proof -
  from assms(1) obtain i where "i < k" "b = take m (drop (i * m) xs)"
    by (auto simp: blocks_def)
  then show ?thesis using length_block [OF _ assms(2)] by simp
qed


lemma mult_index_less:
  fixes i d f M :: nat
  assumes "i < d" and "f < M"
  shows "i * M + f < d * M"
proof -
  have "i * M + f < i * M + M" using assms(2) by simp
  also have "\<dots> = Suc i * M" by simp
  also have "\<dots> \<le> d * M" using assms(1) by (intro mult_le_mono1) simp
  finally show ?thesis .
qed

lemma flat_index_less: "valid_index s idx \<Longrightarrow> flat_index s idx < prod_list s"
  unfolding valid_index_def
proof (induction idx s rule: list_all2_induct)
  case Nil
  then show ?case by simp
next
  case (Cons i idx d ds)
  then show ?case using mult_index_less [of i d "flat_index ds idx" "prod_list ds"] by simp
qed

lemma padded_shape_Cons: "padded_shape (d # ds) (p # ps) = (fst p + d + snd p) # padded_shape ds ps"
  by (simp add: padded_shape_def)

lemma padded_shape_Nil: "padded_shape [] ps = []"
  by (simp add: padded_shape_def)

lemma length_pad_data:
  "length ps = length ds \<Longrightarrow> length xs = prod_list ds
     \<Longrightarrow> length (pad_data ds ps v xs) = prod_list (padded_shape ds ps)"
proof (induction ds arbitrary: ps xs)
  case Nil
  then show ?case by (simp add: padded_shape_Nil)
next
  case (Cons d ds)
  then obtain p ps' where ps: "ps = p # ps'" and lps: "length ps' = length ds"
    by (cases ps) auto
  let ?m = "prod_list ds"
  let ?M = "prod_list (padded_shape ds ps')"
  have lx: "length xs = d * ?m" using Cons.prems(2) by simp
  have "length b = ?M" if "b \<in> set (map (pad_data ds ps' v) (blocks d ?m xs))" for b
  proof -
    from that obtain c where c: "c \<in> set (blocks d ?m xs)" and b: "b = pad_data ds ps' v c"
      by auto
    have "length c = ?m" using in_blocks_length [OF c lx] .
    then show ?thesis using Cons.IH [OF lps] b by simp
  qed
  then have "length (concat (map (pad_data ds ps' v) (blocks d ?m xs))) = d * ?M"
    using length_concat_uniform [of "map (pad_data ds ps' v) (blocks d ?m xs)" ?M]
    by (simp add: length_blocks)
  then show ?case
    by (simp add: ps padded_shape_Cons algebra_simps)
qed

lemma pad_data_right_nth:
  "length ps = length ds \<Longrightarrow> list_all (\<lambda>p. fst p = 0) ps \<Longrightarrow> length xs = prod_list ds
     \<Longrightarrow> valid_index (padded_shape ds ps) idx
     \<Longrightarrow> pad_data ds ps v xs ! flat_index (padded_shape ds ps) idx
           = (if valid_index ds idx then xs ! flat_index ds idx else v)"
proof (induction ds arbitrary: ps xs idx)
  case Nil
  then have "idx = []" by (simp add: padded_shape_Nil valid_index_def)
  then show ?case by (simp add: padded_shape_Nil valid_index_def)
next
  case (Cons d ds)
  then obtain p ps' where ps: "ps = p # ps'" and lps: "length ps' = length ds"
    by (cases ps) auto
  have p0: "fst p = 0" and ps0: "list_all (\<lambda>p. fst p = 0) ps'"
    using Cons.prems(2) ps by simp_all
  let ?m = "prod_list ds"
  let ?T = "padded_shape ds ps'"
  let ?M = "prod_list ?T"
  let ?bs = "map (pad_data ds ps' v) (blocks d ?m xs)"
  have lx: "length xs = d * ?m" using Cons.prems(3) by simp
  from Cons.prems(4) obtain i js where idx: "idx = i # js"
    and i: "i < d + snd p" and js: "valid_index ?T js"
    by (cases idx) (auto simp: ps padded_shape_Cons valid_index_def p0)
  let ?f = "flat_index ?T js"
  have f: "?f < ?M" using flat_index_less [OF js] .
  have lb: "length b = ?M" if "b \<in> set ?bs" for b
  proof -
    from that obtain c where c: "c \<in> set (blocks d ?m xs)" and b: "b = pad_data ds ps' v c"
      by auto
    have "length c = ?m" using in_blocks_length [OF c lx] .
    then show ?thesis using length_pad_data [OF lps] b by simp
  qed
  have lc: "length (concat ?bs) = d * ?M"
    using length_concat_uniform [of ?bs ?M] lb by (simp add: length_blocks)
  have data: "pad_data (d # ds) ps v xs = concat ?bs @ replicate (snd p * ?M) v"
    by (simp add: ps p0)
  have pos: "flat_index (padded_shape (d # ds) ps) idx = i * ?M + ?f"
    by (simp add: ps idx padded_shape_Cons)
  have vi: "valid_index (d # ds) idx = (i < d \<and> valid_index ds js)"
    by (simp add: idx valid_index_def)
  have fi: "flat_index (d # ds) idx = i * ?m + flat_index ds js"
    by (simp add: idx)
  show ?case
  proof (cases "i < d")
    case True
    let ?c = "take ?m (drop (i * ?m) xs)"
    have lcblock: "length ?c = ?m" using length_block [OF True lx] .
    have "i * ?M + ?f < d * ?M" using mult_index_less [OF True f] .
    then have "pad_data (d # ds) ps v xs ! (i * ?M + ?f) = concat ?bs ! (i * ?M + ?f)"
      using lc by (simp add: data nth_append)
    also have "\<dots> = ?bs ! i ! ?f"
      using nth_concat_uniform [of ?bs ?M i ?f] lb True f by (simp add: length_blocks)
    also have "\<dots> = pad_data ds ps' v ?c ! ?f"
      using True by (simp add: length_blocks nth_blocks)
    also have "\<dots> = (if valid_index ds js then ?c ! flat_index ds js else v)"
      using Cons.IH [OF lps ps0 lcblock js] .
    finally have step: "pad_data (d # ds) ps v xs ! (i * ?M + ?f)
        = (if valid_index ds js then ?c ! flat_index ds js else v)" .
    show ?thesis
    proof (cases "valid_index ds js")
      case valid: True
      have g: "flat_index ds js < ?m" using flat_index_less [OF valid] .
      have "i * ?m + ?m \<le> length xs" using block_fits [OF True lx] .
      then have "?c ! flat_index ds js = xs ! (i * ?m + flat_index ds js)"
        using g by simp
      then show ?thesis
        using step valid True by (simp add: pos vi fi)
    next
      case False
      then show ?thesis using step by (simp add: pos vi)
    qed
  next
    case False
    then have ge: "d * ?M \<le> i * ?M + ?f"
      by (simp add: trans_le_add1)
    have "i * ?M + ?f < (d + snd p) * ?M" using mult_index_less [OF i f] .
    then have "i * ?M + ?f - d * ?M < snd p * ?M"
      using ge by (simp add: algebra_simps)
    then have "pad_data (d # ds) ps v xs ! (i * ?M + ?f) = v"
      using ge lc by (simp add: data nth_append)
    then show ?thesis using False by (simp add: pos vi)
  qed
qed


lemma take_drop_concat_uniform:
  "(\<And>b. b \<in> set bs \<Longrightarrow> length b = M) \<Longrightarrow> i < length bs
     \<Longrightarrow> take M (drop (i * M) (concat bs)) = bs ! i"
proof (induction bs arbitrary: i)
  case Nil
  then show ?case by simp
next
  case (Cons b bs)
  have lb: "length b = M" using Cons.prems(1) by simp
  show ?case
  proof (cases i)
    case 0
    then show ?thesis using lb by simp
  next
    case (Suc k)
    then have "take M (drop (k * M) (concat bs)) = bs ! k"
      using Cons.IH [of k] Cons.prems by simp
    then show ?thesis using lb Suc by simp
  qed
qed

lemma blocks_concat_uniform:
  assumes "\<And>b. b \<in> set bs \<Longrightarrow> length b = M"
  shows "blocks (length bs) M (concat bs) = bs"
proof (rule nth_equalityI)
  show "length (blocks (length bs) M (concat bs)) = length bs"
    by (simp add: length_blocks)
next
  fix i assume "i < length (blocks (length bs) M (concat bs))"
  then have i: "i < length bs" by (simp add: length_blocks)
  then show "blocks (length bs) M (concat bs) ! i = bs ! i"
    using take_drop_concat_uniform [of bs M i] assms by (simp add: nth_blocks)
qed

lemma blocks_singletons: "blocks (length xs) 1 xs = map (\<lambda>x. [x]) xs"
proof -
  have "blocks (length (map (\<lambda>x. [x]) xs)) 1 (concat (map (\<lambda>x. [x]) xs)) = map (\<lambda>x. [x]) xs"
    by (rule blocks_concat_uniform) auto
  moreover have "concat (map (\<lambda>x. [x]) xs) = xs"
    by (induction xs) simp_all
  ultimately show ?thesis by simp
qed

lemma concat_zero_rows:
  "concat (map2 (@) (map (\<lambda>x. [x]) (map (\<lambda>_. 0 :: int) ds)) (map (\<lambda>x. [x]) ds))
     = concat (map (\<lambda>d. [0, d]) ds)"
  by (induction ds) simp_all

lemma padding_rows:
  "map (\<lambda>row. (nat (row ! 0), nat (row ! 1)))
       (blocks (length ds) 2 (concat (map (\<lambda>d. [0, d]) ds)))
     = map (\<lambda>d. (0, nat d)) (ds :: int list)"
proof -
  have "blocks (length (map (\<lambda>d. [0, d]) ds)) 2 (concat (map (\<lambda>d. [0, d]) ds))
          = map (\<lambda>d. [0, d]) ds"
    by (rule blocks_concat_uniform) auto
  then show ?thesis by simp
qed

lemma padding_nonnegative:
  "list_ex (\<lambda>p. p < 0) (concat (map (\<lambda>d. [0, d]) ds)) = list_ex (\<lambda>d. d < (0 :: int)) ds"
  by (induction ds) simp_all

text \<open>The padding tensor that \<open>pad_right\<close> hands to \<open>tf.pad\<close>.\<close>

lemma pad_right_unfold:
  assumes "length target = rank x" and "rank x \<le> 8" and "constant_value dt v = Inr c"
  shows "pad_right dt x target v =
           (let ds = map2 (-) (map int target) (map int (shape x))
            in if list_ex (\<lambda>d. d < 0) ds then Inl InvalidArgumentError
               else Inr (Tensor (padded_shape (shape x) (map (\<lambda>d. (0, nat d)) ds))
                          (pad_data (shape x) (map (\<lambda>d. (0, nat d)) ds) c (vals x))))"
proof -
  let ?ds = "map2 (-) (map int target) (map int (shape x))"
  have lds: "length ?ds = rank x" using assms by (simp add: rank_def)
  have sub: "tf_binary (-) (shape_as_tensor target) (tf_shape x) = Inr (Tensor [rank x] ?ds)"
    using assms by (simp add: tf_binary_def shape_as_tensor_def tf_shape_def)
  have cat: "tf_concat_last (tf_zeros_like (tf_expand_dims_last (Tensor [rank x] ?ds)))
               (tf_expand_dims_last (Tensor [rank x] ?ds))
             = Inr (Tensor [rank x, 2] (concat (map (\<lambda>d. [0, d]) ?ds)))"
  proof -
    have b1: "blocks (rank x) (Suc 0) ?ds = map (\<lambda>x. [x]) ?ds"
      using blocks_singletons [of ?ds] lds by simp
    have b0: "blocks (rank x) (Suc 0) (map (\<lambda>_. 0 :: int) ?ds) = map (\<lambda>x. [x]) (map (\<lambda>_. 0) ?ds)"
      using blocks_singletons [of "map (\<lambda>_. 0 :: int) ?ds"] lds by simp
    show ?thesis
      unfolding tf_concat_last_def tf_zeros_like_def tf_expand_dims_last_def
      by (simp add: b0 b1 concat_zero_rows del: map_map)
  qed
  have rows: "map (\<lambda>row. (nat (row ! 0), nat (row ! 1)))
                (blocks (rank x) 2 (concat (map (\<lambda>d. [0, d]) ?ds))) = map (\<lambda>d. (0, nat d)) ?ds"
    using padding_rows [of ?ds] lds by simp
  have pad: "tf_pad x (Tensor [rank x, 2] (concat (map (\<lambda>d. [0, d]) ?ds))) c =
      (if list_ex (\<lambda>d. d < 0) ?ds then Inl InvalidArgumentError
       else Inr (Tensor (padded_shape (shape x) (map (\<lambda>d. (0, nat d)) ?ds))
                  (pad_data (shape x) (map (\<lambda>d. (0, nat d)) ?ds) c (vals x))))"
    unfolding tf_pad_def Let_def tensor.sel rows padding_nonnegative using assms(2) by simp
  show ?thesis
    unfolding pad_right_def Let_def sub sum.case cat tf_pad_constant_def assms(3) pad ..
qed

text \<open>What \<open>pad_right\<close> does when the value does not convert, and above rank 8.\<close>

lemma pad_right_conversion_error:
  assumes "length target = rank x" and "constant_value dt v = Inl e"
  shows "pad_right dt x target v = Inl e"
proof -
  let ?ds = "map2 (-) (map int target) (map int (shape x))"
  have lds: "length ?ds = rank x" using assms by (simp add: rank_def)
  have sub: "tf_binary (-) (shape_as_tensor target) (tf_shape x) = Inr (Tensor [rank x] ?ds)"
    using assms by (simp add: tf_binary_def shape_as_tensor_def tf_shape_def)
  obtain p where cat: "tf_concat_last (tf_zeros_like (tf_expand_dims_last (Tensor [rank x] ?ds)))
               (tf_expand_dims_last (Tensor [rank x] ?ds)) = Inr p"
    by (simp add: tf_concat_last_def tf_zeros_like_def tf_expand_dims_last_def Let_def)
  show ?thesis
    unfolding pad_right_def Let_def sub sum.case cat tf_pad_constant_def assms(2) ..
qed

lemma pad_right_rank_error:
  assumes "length target = rank x" and "8 < rank x" and "constant_value dt v = Inr c"
  shows "pad_right dt x target v = Inl UnimplementedError"
proof -
  let ?ds = "map2 (-) (map int target) (map int (shape x))"
  have sub: "tf_binary (-) (shape_as_tensor target) (tf_shape x) = Inr (Tensor [rank x] ?ds)"
    using assms by (simp add: tf_binary_def shape_as_tensor_def tf_shape_def)
  obtain p where cat: "tf_concat_last (tf_zeros_like (tf_expand_dims_last (Tensor [rank x] ?ds)))
               (tf_expand_dims_last (Tensor [rank x] ?ds)) = Inr p"
    by (simp add: tf_concat_last_def tf_zeros_like_def tf_expand_dims_last_def Let_def)
  have "tf_pad x p c = Inl UnimplementedError" using assms(2) by (simp add: tf_pad_def)
  then show ?thesis
    unfolding pad_right_def Let_def sub sum.case cat tf_pad_constant_def assms(3) by simp
qed


lemma right_padding_fits:
  "list_all2 (\<le>) s target \<Longrightarrow>
     \<not> list_ex (\<lambda>d. d < 0) (map2 (-) (map int target) (map int s))
     \<and> padded_shape s (map (\<lambda>d. (0, nat d)) (map2 (-) (map int target) (map int s))) = target"
proof (induction s target rule: list_all2_induct)
  case Nil
  then show ?case by (simp add: padded_shape_Nil)
next
  case (Cons d ds t ts)
  then show ?case by (simp add: padded_shape_Cons)
qed

lemma right_padding_zero:
  "list_all (\<lambda>p. p = (0, 0)) (map (\<lambda>d. (0, nat d)) (map2 (-) (map int s) (map int s)))"
  by (induction s) simp_all

lemma pad_data_zero:
  "length ps = length ds \<Longrightarrow> list_all (\<lambda>p. p = (0, 0)) ps \<Longrightarrow> length xs = prod_list ds
     \<Longrightarrow> pad_data ds ps v xs = xs"
proof (induction ds arbitrary: ps xs)
  case Nil
  then show ?case by simp
next
  case (Cons d ds)
  then obtain p ps' where ps: "ps = p # ps'" and lps: "length ps' = length ds"
    by (cases ps) auto
  have p0: "p = (0, 0)" and ps0: "list_all (\<lambda>p. p = (0, 0)) ps'"
    using Cons.prems(2) ps by simp_all
  let ?m = "prod_list ds"
  have lx: "length xs = d * ?m" using Cons.prems(3) by simp
  have "map (pad_data ds ps' v) (blocks d ?m xs) = blocks d ?m xs"
  proof (rule map_idI)
    fix c assume "c \<in> set (blocks d ?m xs)"
    then have "length c = ?m" using in_blocks_length lx by blast
    then show "pad_data ds ps' v c = c" using Cons.IH [OF lps ps0] by simp
  qed
  then show ?case
    using concat_blocks [OF lx] by (simp add: ps p0)
qed

lemma flat_index_snoc:
  "length idx = length s \<Longrightarrow> flat_index (s @ [L]) (idx @ [j]) = flat_index s idx * L + j"
proof (induction s arbitrary: idx)
  case Nil
  then show ?case by simp
next
  case (Cons d ds)
  then obtain i js where idx: "idx = i # js" and ljs: "length js = length ds"
    by (cases idx) auto
  show ?case
    using Cons.IH [OF ljs] by (simp add: idx algebra_simps)
qed

subsection \<open>Multi-indices and positions of the buffer correspond one to one\<close>

lemma valid_index_Nil: "valid_index [] idx = (idx = [])"
  by (simp add: valid_index_def)

lemma valid_index_Cons:
  "valid_index (d # ds) idx = (\<exists>i js. idx = i # js \<and> i < d \<and> valid_index ds js)"
  by (cases idx) (auto simp: valid_index_def)

lemma flat_index_inj:
  "valid_index s idx \<Longrightarrow> valid_index s idx' \<Longrightarrow> flat_index s idx = flat_index s idx'
     \<Longrightarrow> idx = idx'"
proof (induction s arbitrary: idx idx')
  case Nil
  then show ?case by (simp add: valid_index_Nil)
next
  case (Cons d ds)
  from Cons.prems(1) obtain i js where idx: "idx = i # js" "i < d" "valid_index ds js"
    by (auto simp: valid_index_Cons)
  from Cons.prems(2) obtain i' js' where idx': "idx' = i' # js'" "i' < d" "valid_index ds js'"
    by (auto simp: valid_index_Cons)
  let ?M = "prod_list ds"
  have f: "flat_index ds js < ?M" "flat_index ds js' < ?M"
    using flat_index_less idx(3) idx'(3) by blast+
  have eq: "i * ?M + flat_index ds js = i' * ?M + flat_index ds js'"
    using Cons.prems(3) by (simp add: idx idx')
  have "(i * ?M + flat_index ds js) div ?M = i" "(i' * ?M + flat_index ds js') div ?M = i'"
    using f by simp_all
  then have ii: "i = i'" using eq by simp
  then have "flat_index ds js = flat_index ds js'" using eq by simp
  then have "js = js'" using Cons.IH [OF idx(3) idx'(3)] by simp
  then show ?case using ii by (simp add: idx idx')
qed

lemma flat_index_surj:
  "k < prod_list s \<Longrightarrow> \<exists>idx. valid_index s idx \<and> flat_index s idx = k"
proof (induction s arbitrary: k)
  case Nil
  then show ?case by (simp add: valid_index_Nil)
next
  case (Cons d ds)
  let ?M = "prod_list ds"
  have k: "k < d * ?M" using Cons.prems by simp
  then have M: "0 < ?M" by (cases "?M = 0") auto
  have "k mod ?M < ?M" using M by simp
  from Cons.IH [OF this] obtain js where js: "valid_index ds js" "flat_index ds js = k mod ?M"
    by blast
  have "k div ?M < d" using k M by (simp add: less_mult_imp_div_less)
  then have "valid_index (d # ds) ((k div ?M) # js)"
    using js(1) by (simp add: valid_index_Cons)
  moreover have "flat_index (d # ds) ((k div ?M) # js) = k"
    using js(2) by simp
  ultimately show ?case by blast
qed

lemma flat_index_bij:
  "bij_betw (flat_index s) {idx. valid_index s idx \<and> P (flat_index s idx)}
     {k. k < prod_list s \<and> P k}"
  unfolding bij_betw_def
proof
  show "inj_on (flat_index s) {idx. valid_index s idx \<and> P (flat_index s idx)}"
    by (rule inj_onI) (auto intro: flat_index_inj)
next
  show "flat_index s ` {idx. valid_index s idx \<and> P (flat_index s idx)}
          = {k. k < prod_list s \<and> P k}"
  proof (rule set_eqI)
    fix k
    show "k \<in> flat_index s ` {idx. valid_index s idx \<and> P (flat_index s idx)}
            \<longleftrightarrow> k \<in> {k. k < prod_list s \<and> P k}"
      using flat_index_less [of s] flat_index_surj [of k s] by auto
  qed
qed

lemma card_positions:
  "card {idx. valid_index s idx \<and> P (flat_index s idx)} = card {k. k < prod_list s \<and> P k}"
  using bij_betw_same_card [OF flat_index_bij] .

subsection \<open>Flattening, tiling and gathering\<close>

lemma filter_positive_all: "0 \<notin> set (ds :: nat list) \<Longrightarrow> filter (\<lambda>d. 0 < d) ds = ds"
  by (induction ds) auto

lemma batch_flatten_general:
  assumes "shape x = lead @ [D]"
  shows "batch_flatten x =
           Inr (Tensor [if 0 < D then prod_list lead else prod_list (filter (\<lambda>d. 0 < d) lead), D]
                  (vals x))"
  using assms by (simp add: batch_flatten_def tf_reshape_def Let_def)

lemma batch_flatten_eq:
  assumes "shape x = lead @ [L]" and "0 < L \<or> 0 \<notin> set lead"
  shows "batch_flatten x = Inr (Tensor [prod_list lead, L] (vals x))"
  using assms(2) filter_positive_all [of lead]
  by (auto simp: batch_flatten_general [OF assms(1)])

lemma tile_data_ones:
  "length xs = prod_list ds \<Longrightarrow> tile_data ds (replicate (length ds) 1) xs = xs"
proof (induction ds arbitrary: xs)
  case Nil
  then show ?case by simp
next
  case (Cons d ds)
  let ?m = "prod_list ds"
  have lx: "length xs = d * ?m" using Cons.prems by simp
  have "map (tile_data ds (replicate (length ds) 1)) (blocks d ?m xs) = blocks d ?m xs"
  proof (rule map_idI)
    fix c assume "c \<in> set (blocks d ?m xs)"
    then have "length c = ?m" using in_blocks_length lx by blast
    then show "tile_data ds (replicate (length ds) 1) c = c" using Cons.IH by simp
  qed
  then show ?case using concat_blocks [OF lx] by simp
qed

lemma tile_pool:
  assumes "length vs = R * D"
  shows "tf_tile (tf_expand_dims_first (Tensor [R, D] vs)) [int n, 1, 1]
           = Inr (Tensor [n, R, D] (concat (replicate n vs)))"
proof -
  have inner: "tile_data [R, D] [1, 1] vs = vs"
    using tile_data_ones [of vs "[R, D]"] assms by (simp add: numeral_2_eq_2)
  have "blocks 1 (R * D) vs = [vs]"
    using assms by (simp add: blocks_def)
  then have "tile_data [1, R, D] [n, 1, 1] vs = concat (replicate n vs)"
    using inner by simp
  then show ?thesis
    by (simp add: tf_tile_def tf_expand_dims_first_def rank_def)
qed


lemma nth_concat_replicate:
  assumes "i < n" and "g < length vs"
  shows "concat (replicate n vs) ! (i * length vs + g) = vs ! g"
  using nth_concat_uniform [of "replicate n vs" "length vs" i g] assms by simp

lemma length_concat_map_uniform:
  assumes "\<And>i. i < n \<Longrightarrow> length (h i) = M"
  shows "length (concat (map h [0..<n])) = n * M"
proof -
  have "length b = M" if "b \<in> set (map h [0..<n])" for b
    using that assms by auto
  from length_concat_uniform [of "map h [0..<n]" M, OF this]
  show ?thesis by simp
qed

lemma nth_concat_map_uniform:
  assumes "\<And>i. i < n \<Longrightarrow> length (h i) = M" and "i < n" and "f < M"
  shows "concat (map h [0..<n]) ! (i * M + f) = h i ! f"
proof -
  have "length b = M" if "b \<in> set (map h [0..<n])" for b
    using that assms(1) by auto
  from nth_concat_uniform [of "map h [0..<n]" M i f, OF this] assms(2,3)
  show ?thesis by simp
qed

text \<open>The buffer that \<open>tf.gather\<close> builds from the tiled pool.\<close>

lemma gathered_block:
  fixes cs :: "int list"
  assumes lvs: "length vs = R * D" and lcs: "length cs = n * K"
    and range: "list_all (\<lambda>c. 0 \<le> c \<and> c < int R) cs"
    and i: "i < n" and j: "j < K"
  shows "take D (drop ((i * R + nat (cs ! (i * K + j))) * D) (concat (replicate n vs)))
           = take D (drop (nat (cs ! (i * K + j)) * D) vs)"
proof -
  let ?c = "nat (cs ! (i * K + j))"
  have "i * K + j < n * K" using mult_index_less [OF i j] .
  then have "cs ! (i * K + j) \<in> set cs" using lcs by simp
  then have c: "?c < R" using range by (auto simp: list_all_iff)
  have "take (R * D) (drop (i * (R * D)) (concat (replicate n vs))) = replicate n vs ! i"
    by (rule take_drop_concat_uniform) (use lvs i in auto)
  then have whole: "take (R * D) (drop (i * (R * D)) (concat (replicate n vs))) = vs"
    using i by simp
  have fits: "?c * D + D \<le> R * D"
  proof -
    have "Suc ?c \<le> R" using c by simp
    then have "Suc ?c * D \<le> R * D" by (rule mult_le_mono1)
    then show ?thesis by (simp add: add.commute)
  qed
  have "take D (drop ((i * R + ?c) * D) (concat (replicate n vs)))
          = take D (drop (?c * D) (drop (i * (R * D)) (concat (replicate n vs))))"
    by (simp add: algebra_simps)
  also have "\<dots> = take D (drop (?c * D) (take (R * D) (drop (i * (R * D)) (concat (replicate n vs)))))"
    using fits by (simp add: drop_take min_def)
  also have "\<dots> = take D (drop (?c * D) vs)"
    by (simp only: whole)
  finally show ?thesis .
qed

lemma length_pool_row:
  assumes "length vs = R * D" and "c < R"
  shows "length (take D (drop (c * D) vs)) = D"
  using length_block [OF assms(2) assms(1)] .


lemma gathered_data:
  fixes cs :: "int list"
  assumes lvs: "length vs = R * D" and lcs: "length cs = n * K"
    and range: "list_all (\<lambda>c. 0 \<le> c \<and> c < int R) cs"
  shows "concat (map (\<lambda>i. concat (map (\<lambda>j.
             take D (drop ((i * R + nat (cs ! (i * K + j))) * D) (concat (replicate n vs))))
           [0..<K])) [0..<n])
         = concat (map (\<lambda>i. concat (map (\<lambda>j.
             take D (drop (nat (cs ! (i * K + j)) * D) vs)) [0..<K])) [0..<n])"
proof (rule arg_cong [where f = concat], rule map_cong [OF refl])
  fix i assume "i \<in> set [0..<n]"
  then have i: "i < n" by simp
  show "concat (map (\<lambda>j. take D (drop ((i * R + nat (cs ! (i * K + j))) * D)
                  (concat (replicate n vs)))) [0..<K])
        = concat (map (\<lambda>j. take D (drop (nat (cs ! (i * K + j)) * D) vs)) [0..<K])"
  proof (rule arg_cong [where f = concat], rule map_cong [OF refl])
    fix j assume "j \<in> set [0..<K]"
    then have j: "j < K" by simp
    show "take D (drop ((i * R + nat (cs ! (i * K + j))) * D) (concat (replicate n vs)))
          = take D (drop (nat (cs ! (i * K + j)) * D) vs)"
      using gathered_block [OF lvs lcs range i j] .
  qed
qed

lemma gathered_rows:
  fixes cs :: "int list"
  assumes lvs: "length vs = R * D" and lcs: "length cs = n * K"
    and range: "list_all (\<lambda>c. 0 \<le> c \<and> c < int R) cs"
  defines "out \<equiv> concat (map (\<lambda>i. concat (map (\<lambda>j.
             take D (drop (nat (cs ! (i * K + j)) * D) vs)) [0..<K])) [0..<n])"
  shows "length out = n * (K * D)"
    and "i < n \<Longrightarrow> j < K \<Longrightarrow> f < D
           \<Longrightarrow> out ! (i * (K * D) + (j * D + f)) = vs ! (nat (cs ! (i * K + j)) * D + f)"
proof -
  define blk where "blk = (\<lambda>i j. take D (drop (nat (cs ! (i * K + j)) * D) vs))"
  define row where "row = (\<lambda>i. concat (map (blk i) [0..<K]))"
  have out: "out = concat (map row [0..<n])"
    by (simp add: out_def row_def blk_def)
  have c_less: "nat (cs ! (a * K + b)) < R" if "a < n" "b < K" for a b
  proof -
    have "a * K + b < n * K" using mult_index_less [OF that] .
    then have "cs ! (a * K + b) \<in> set cs" using lcs by simp
    then show ?thesis using range by (auto simp: list_all_iff)
  qed
  have lblk: "length (blk a b) = D" if "a < n" "b < K" for a b
    unfolding blk_def using length_pool_row [OF lvs c_less [OF that]] .
  have lrow: "length (row a) = K * D" if "a < n" for a
    unfolding row_def using length_concat_map_uniform [of K "blk a" D] lblk [OF that] by blast
  show "length out = n * (K * D)"
    unfolding out using length_concat_map_uniform [of n row "K * D"] lrow by blast
  show "out ! (i * (K * D) + (j * D + f)) = vs ! (nat (cs ! (i * K + j)) * D + f)"
    if i: "i < n" and j: "j < K" and f: "f < D"
  proof -
    have jf: "j * D + f < K * D" using mult_index_less [OF j f] .
    have "out ! (i * (K * D) + (j * D + f)) = row i ! (j * D + f)"
      unfolding out using nth_concat_map_uniform [of n row "K * D" i "j * D + f"] lrow i jf
      by blast
    also have "\<dots> = blk i j ! f"
      unfolding row_def using nth_concat_map_uniform [of K "blk i" D j f] lblk [OF i] j f
      by blast
    also have "\<dots> = vs ! (nat (cs ! (i * K + j)) * D + f)"
    proof -
      have "nat (cs ! (i * K + j)) * D + D \<le> length vs"
        using block_fits [OF c_less [OF i j] lvs] .
      then show ?thesis using f by (simp add: blk_def)
    qed
    finally show ?thesis .
  qed
qed

lemma gather_candidates:
  assumes flat: "batch_flatten x = Inr (Tensor [R, D] vs)" and lvs: "length vs = R * D"
    and sc: "shape c = [n, K]" and lcs: "length (vals c) = n * K"
    and range: "list_all (\<lambda>v. 0 \<le> v \<and> v < int R) (vals c)"
  shows "\<exists>y. get_candidate_values x c = Inr y \<and> shape y = [n, K, D] \<and> well_formed y
           \<and> (\<forall>i j f. i < n \<and> j < K \<and> f < D \<longrightarrow>
                 get y [i, j, f] = vs ! (nat (vals c ! (i * K + j)) * D + f))"
proof -
  define out where "out = concat (map (\<lambda>i. concat (map (\<lambda>j.
             take D (drop (nat (vals c ! (i * K + j)) * D) vs)) [0..<K])) [0..<n])"
  have neg: "\<not> list_ex (\<lambda>v. v < 0) (vals c)" and big: "\<not> list_ex (\<lambda>v. int R \<le> v) (vals c)"
    using range by (auto simp: list_all_iff list_ex_iff)
  have "tf_gather_batch1 (Tensor [n, R, D] (concat (replicate n vs))) c
          = Inr (Tensor [n, K, D] (concat (map (\<lambda>i. concat (map (\<lambda>j.
             take D (drop ((i * R + nat (vals c ! (i * K + j))) * D) (concat (replicate n vs))))
           [0..<K])) [0..<n])))"
    using neg big by (simp add: tf_gather_batch1_def sc)
  then have gath: "tf_gather_batch1 (Tensor [n, R, D] (concat (replicate n vs))) c
          = Inr (Tensor [n, K, D] out)"
    unfolding out_def gathered_data [OF lvs lcs range] .
  have res: "get_candidate_values x c = Inr (Tensor [n, K, D] out)"
    by (simp add: get_candidate_values_def flat shape_at_0_def sc tile_pool [OF lvs] gath)
  have wf: "well_formed (Tensor [n, K, D] out)"
    using gathered_rows(1) [OF lvs lcs range] by (simp add: well_formed_def out_def)
  have "get (Tensor [n, K, D] out) [i, j, f] = vs ! (nat (vals c ! (i * K + j)) * D + f)"
    if "i < n" "j < K" "f < D" for i j f
    using gathered_rows(2) [OF lvs lcs range that] by (simp add: get_def out_def)
  with res wf show ?thesis by (intro exI [of _ "Tensor [n, K, D] out"]) simp
qed

section \<open>\<^verbatim>\<open>random_indices\<close>\<close>

text \<open>
  Claim C4. For positive \<open>batch_size\<close>, \<open>n\<close> and \<open>n_max\<close>, whatever the generator
  delivers, \<open>random_indices\<close> returns an integer tensor of shape \<open>(batch_size, n)\<close>, one
  element per position, every element in \<open>[0, n_max)\<close>.
\<close>

theorem random_indices_in_range:
  assumes "0 < sint batch_size" and "0 < sint n" and "0 < sint n_max"
  shows "\<exists>t. random_indices gen batch_size n n_max = Inr (Int32Tensor t)
             \<and> shape t = [nat (sint batch_size), nat (sint n)]
             \<and> well_formed t
             \<and> list_all (\<lambda>v. 0 \<le> v \<and> v < sint n_max) (vals t)"
proof -
  let ?t = "Tensor [nat (sint batch_size), nat (sint n)]
              (map (\<lambda>k. int (unat (gen k) mod nat (sint n_max)))
                   [0..<nat (sint batch_size) * nat (sint n)])"
  have "random_indices gen batch_size n n_max = Inr (Int32Tensor ?t)"
    using assms by (simp add: random_indices_def tf_random_uniform_int32_def)
  moreover have "well_formed ?t"
    by (simp add: well_formed_def)
  moreover have "list_all (\<lambda>v. 0 \<le> v \<and> v < sint n_max) (vals ?t)"
  proof -
    have "int (unat (gen k) mod nat (sint n_max)) < sint n_max" for k
    proof -
      have "unat (gen k) mod nat (sint n_max) < nat (sint n_max)"
        using assms(3) by simp
      then show ?thesis using assms(3) by linarith
    qed
    then show ?thesis by (simp add: list_all_iff)
  qed
  ultimately show ?thesis by (intro exI [of _ ?t]) simp
qed

text \<open>The instance of the specification: \<open>n_max = 5\<close>, \<open>batch_size = 100\<close>, \<open>n = 3\<close>.\<close>

theorem random_indices_in_range_witness:
  "\<exists>t. random_indices (\<lambda>k. word_of_nat (7 * k + 3)) 100 3 5 = Inr (Int32Tensor t)
       \<and> shape t = [100, 3]
       \<and> well_formed t
       \<and> list_all (\<lambda>v. 0 \<le> v \<and> v < 5) (vals t)"
  using random_indices_in_range [of 100 3 5 "\<lambda>k. word_of_nat (7 * k + 3)"]
  by simp

text \<open>
  Claim C5. For positive \<open>batch_size\<close> and \<open>n\<close> and \<open>n_max \<le> 0\<close>, \<open>random_indices\<close>
  raises nothing and returns the floating-point tensor of shape \<open>(batch_size, n)\<close> whose
  elements are all zero.
\<close>

theorem random_indices_zeros:
  assumes "0 < sint batch_size" and "0 < sint n" and "sint n_max \<le> 0"
  shows "random_indices gen batch_size n n_max =
           Inr (Float32Tensor (Tensor [nat (sint batch_size), nat (sint n)]
                  (replicate (nat (sint batch_size) * nat (sint n)) (Float 0))))"
  using assms by (simp add: random_indices_def tf_zeros_def)

theorem random_indices_zeros_witness:
  "random_indices (\<lambda>k. word_of_nat (7 * k + 3)) 2 3 0 =
     Inr (Float32Tensor (Tensor [2, 3]
            [Float 0, Float 0, Float 0, Float 0, Float 0, Float 0]))"
  using random_indices_zeros [of 2 3 0 "\<lambda>k. word_of_nat (7 * k + 3)"]
  by (simp add: numeral_eq_Suc)

section \<open>\<^verbatim>\<open>batch_flatten\<close>\<close>

text \<open>
  Let \<open>x\<close> have at least two axes, the leading ones of sizes \<open>lead\<close> and the last of
  size \<open>L\<close>, and let the last axis be non-empty or no leading axis be empty. Then
  \<open>batch_flatten\<close> does what its docstring says: it returns a tensor of shape
  \<open>(prod_list lead, L)\<close> in row-major order: the element at row
  \<open>flat_index lead idx\<close>, column \<open>j\<close> is the element of \<open>x\<close> at \<open>idx @ [j]\<close>.
\<close>

theorem batch_flatten_row_major:
  assumes "well_formed x" and "shape x = lead @ [L]" and "lead \<noteq> []"
    and "0 < L \<or> 0 \<notin> set lead"
  shows "\<exists>y. batch_flatten x = Inr y \<and> shape y = [prod_list lead, L] \<and> well_formed y
           \<and> (\<forall>idx j. valid_index lead idx \<and> j < L \<longrightarrow>
                 get y [flat_index lead idx, j] = get x (idx @ [j]))"
proof -
  let ?y = "Tensor [prod_list lead, L] (vals x)"
  have res: "batch_flatten x = Inr ?y"
    using batch_flatten_eq [OF assms(2,4)] .
  have wf: "well_formed ?y"
    using assms(1,2) by (simp add: well_formed_def)
  have "get ?y [flat_index lead idx, j] = get x (idx @ [j])"
    if "valid_index lead idx" for idx j
  proof -
    from that have "length idx = length lead"
      by (simp add: valid_index_def list_all2_lengthD)
    then show ?thesis
      using assms(2) by (simp add: get_def flat_index_snoc)
  qed
  with res wf show ?thesis by (intro exI [of _ ?y]) simp
qed

text \<open>
  The instance of the specification: for shape \<open>(2, 3, 4)\<close> the result has shape
  \<open>(6, 4)\<close> and row \<open>3 * a + b\<close> is \<open>x[a][b]\<close>.
\<close>

theorem batch_flatten_row_major_witness:
  "\<exists>y. batch_flatten (Tensor [2, 3, 4] [0..<24]) = Inr y \<and> shape y = [6, 4] \<and> well_formed y
       \<and> (\<forall>a b j. a < 2 \<and> b < 3 \<and> j < 4 \<longrightarrow>
             get y [3 * a + b, j] = get (Tensor [2, 3, 4] [0..<24]) [a, b, j])"
proof -
  let ?x = "Tensor [2, 3, 4] [0..<24]"
  from batch_flatten_row_major [of ?x "[2, 3]" 4]
  obtain y where y: "batch_flatten ?x = Inr y" "shape y = [6, 4]" "well_formed y"
    and at: "\<And>idx j. valid_index [2, 3] idx \<Longrightarrow> j < 4 \<Longrightarrow>
               get y [flat_index [2, 3] idx, j] = get ?x (idx @ [j])"
    by (auto simp: well_formed_def)
  have "get y [3 * a + b, j] = get ?x [a, b, j]" if "a < 2" "b < 3" "j < 4" for a b j
    using at [of "[a, b]" j] that by (simp add: valid_index_def mult.commute)
  with y show ?thesis by blast
qed

text \<open>
  Claim C2: for every tensor with at least two axes, \<open>batch_flatten\<close> returns a tensor of
  shape (product of all axes but the last, size of the last axis). The docstring promises
  the same: all but the last dimension are flattened into the first. On the matrix of
  shape \<open>(0, 0)\<close> the function does not do it: the result has shape \<open>(1, 0)\<close>, not
  \<open>(0, 0)\<close>, because it leaves the first size to the inference of \<^verbatim>\<open>tf.reshape\<close>,
  which takes the quotient of two element counts that both leave the empty axes out.
\<close>

theorem batch_flatten_empty_matrix:
  "well_formed (Tensor [0, 0] ([] :: int list))
   \<and> rank (Tensor [0, 0] ([] :: int list)) = 2
   \<and> batch_flatten (Tensor [0, 0] ([] :: int list)) = Inr (Tensor [1, 0] [])
   \<and> [1, 0] \<noteq> [prod_list (butlast (shape (Tensor [0, 0] ([] :: int list)))),
                  last (shape (Tensor [0, 0] ([] :: int list)))]"
  by (simp add: well_formed_def rank_def batch_flatten_def tf_reshape_def)

text \<open>
  Claim C8, as amended. A tensor without axes makes \<open>batch_flatten\<close> fail with
  \<open>IndexError\<close>. A tensor with one axis of size \<open>n\<close> does not: the call returns the
  tensor of shape \<open>(1, n)\<close> with the same elements.
\<close>

theorem batch_flatten_low_rank:
  "(shape x = [] \<longrightarrow> batch_flatten x = Inl IndexError)
   \<and> (shape x = [n] \<longrightarrow> batch_flatten x = Inr (Tensor [1, n] (vals x)))"
  by (simp add: batch_flatten_def tf_reshape_def)

theorem batch_flatten_low_rank_witness:
  "batch_flatten (Tensor [] [7 :: int]) = Inl IndexError
   \<and> batch_flatten (Tensor [3] [1, 2, 3 :: int]) = Inr (Tensor [1, 3] [1, 2, 3])"
  using batch_flatten_low_rank [of "Tensor [] [7 :: int]"]
    batch_flatten_low_rank [of "Tensor [3] [1, 2, 3 :: int]" 3]
  by simp

text \<open>
  Claim C8 as stated fails: the vector \<open>[1, 2, 3]\<close> has fewer than two axes and
  \<open>batch_flatten\<close> returns a result for it.
\<close>

theorem batch_flatten_vector_returns:
  "rank (Tensor [3] [1, 2, 3 :: int]) < 2
   \<and> batch_flatten (Tensor [3] [1, 2, 3 :: int]) = Inr (Tensor [1, 3] [1, 2, 3])"
  by (simp add: rank_def batch_flatten_def tf_reshape_def)

section \<open>\<^verbatim>\<open>pad_right\<close>\<close>

text \<open>
  Claim C3, as amended. Let \<open>x\<close> have at most 8 axes, let \<open>target\<close> have as many
  entries as \<open>x\<close> has axes, each at least the size of the axis, and let the value convert
  to the element type of \<open>x\<close>, to the element \<open>c\<close>. Then \<open>pad_right\<close> returns a tensor
  of shape \<open>target\<close> that holds the element of \<open>x\<close> at every multi-index inside the
  shape of \<open>x\<close> and \<open>c\<close> at every other multi-index: what is added lies behind the
  content on every axis.
\<close>

theorem pad_right_content:
  assumes "well_formed x" and "rank x \<le> 8" and "length target = rank x"
    and "list_all2 (\<le>) (shape x) target" and "constant_value dt v = Inr c"
  shows "\<exists>y. pad_right dt x target v = Inr y \<and> shape y = target \<and> well_formed y
           \<and> (\<forall>idx. valid_index target idx \<longrightarrow>
                 get y idx = (if valid_index (shape x) idx then get x idx else c))"
proof -
  let ?ps = "map (\<lambda>d. (0, nat d)) (map2 (-) (map int target) (map int (shape x)))"
  let ?y = "Tensor target (pad_data (shape x) ?ps c (vals x))"
  have fits: "\<not> list_ex (\<lambda>d. d < 0) (map2 (-) (map int target) (map int (shape x)))"
    and tgt: "padded_shape (shape x) ?ps = target"
    using right_padding_fits [OF assms(4)] by simp_all
  have lps: "length ?ps = length (shape x)" using assms(3) by (simp add: rank_def)
  have right: "list_all (\<lambda>p. fst p = 0) ?ps" by (simp add: list_all_iff)
  have lx: "length (vals x) = prod_list (shape x)" using assms(1) by (simp add: well_formed_def)
  have res: "pad_right dt x target v = Inr ?y"
    using fits tgt by (simp add: pad_right_unfold [OF assms(3,2,5)] Let_def)
  have wf: "well_formed ?y"
    using length_pad_data [OF lps lx, of c] tgt by (simp add: well_formed_def)
  have "get ?y idx = (if valid_index (shape x) idx then get x idx else c)"
    if "valid_index target idx" for idx
  proof -
    from that have "valid_index (padded_shape (shape x) ?ps) idx" using tgt by simp
    from pad_data_right_nth [OF lps right lx this, of c]
    show ?thesis using tgt by (simp add: get_def)
  qed
  with res wf show ?thesis by (intro exI [of _ ?y]) simp
qed

text \<open>
  An integer matrix padded with the integer 7, and a floating-point vector padded with
  one tenth, which the conversion rounds.
\<close>

theorem pad_right_content_witness:
  "(\<exists>y. pad_right dtype_int32 (Tensor [2, 2] [1, 2, 3, 4]) [3, 4] (PyInt 7) = Inr y
       \<and> shape y = [3, 4] \<and> well_formed y
       \<and> (\<forall>idx. valid_index [3, 4] idx \<longrightarrow>
             get y idx = (if valid_index [2, 2] idx
                          then get (Tensor [2, 2] [1, 2, 3, 4]) idx else 7)))
   \<and> (\<exists>y. pad_right dtype_float32 (Tensor [2] [Float 1, Float 2]) [3]
              (PyFloat (PyFinite (1 / 10))) = Inr y
       \<and> shape y = [3] \<and> well_formed y
       \<and> (\<forall>idx. valid_index [3] idx \<longrightarrow>
             get y idx = (if valid_index [2] idx
                          then get (Tensor [2] [Float 1, Float 2]) idx
                          else round_f32 (1 / 10))))"
  using pad_right_content [of "Tensor [2, 2] [1, 2, 3, 4]" "[3, 4]" dtype_int32 "PyInt 7" 7]
    pad_right_content [of "Tensor [2] [Float 1, Float 2]" "[3]" dtype_float32
      "PyFloat (PyFinite (1 / 10))" "round_f32 (1 / 10)"]
  by (simp add: well_formed_def rank_def constant_value_def dtype_int32_def dtype_float32_def)

text \<open>The example of the specification: a 2 by 2 matrix padded to 3 by 4 with zeros.\<close>

lemma pad_right_example:
  "pad_right dtype_int32 (Tensor [2, 2] [1, 2, 3, 4]) [3, 4] (PyInt 0)
     = Inr (Tensor [3, 4] [1, 2, 0, 0, 3, 4, 0, 0, 0, 0, 0, 0])"
  by code_simp

text \<open>
  Claim C3 as stated fails: the value one half does not convert to the element type of an
  integer tensor, and the kernel refuses a tensor with 9 axes; both calls raise.
\<close>

theorem pad_right_refuses:
  "well_formed (Tensor [2, 2] [1, 2, 3, 4 :: int])
   \<and> list_all2 (\<le>) (shape (Tensor [2, 2] [1, 2, 3, 4 :: int])) [3, 4]
   \<and> pad_right dtype_int32 (Tensor [2, 2] [1, 2, 3, 4]) [3, 4] (PyFloat (PyFinite (1 / 2)))
       = Inl TypeError
   \<and> well_formed (Tensor [1, 1, 1, 1, 1, 1, 1, 1, 1] [5 :: int])
   \<and> list_all2 (\<le>) (shape (Tensor [1, 1, 1, 1, 1, 1, 1, 1, 1] [5 :: int]))
        [1, 1, 1, 1, 1, 1, 1, 2, 3]
   \<and> pad_right dtype_int32 (Tensor [1, 1, 1, 1, 1, 1, 1, 1, 1] [5])
        [1, 1, 1, 1, 1, 1, 1, 2, 3] (PyInt 0) = Inl UnimplementedError"
proof -
  have "pad_right dtype_int32 (Tensor [2, 2] [1, 2, 3, 4]) [3, 4] (PyFloat (PyFinite (1 / 2)))
       = Inl TypeError"
    by (rule pad_right_conversion_error)
      (simp_all add: rank_def constant_value_def dtype_int32_def)
  moreover have "pad_right dtype_int32 (Tensor [1, 1, 1, 1, 1, 1, 1, 1, 1] [5])
        [1, 1, 1, 1, 1, 1, 1, 2, 3] (PyInt 0) = Inl UnimplementedError"
    by (rule pad_right_rank_error [where c = 0])
      (simp_all add: rank_def constant_value_def dtype_int32_def)
  ultimately show ?thesis by (simp add: well_formed_def)
qed

text \<open>
  Claim C9, as amended. Let \<open>x\<close> have at most 8 axes and let the value convert to the
  element type of \<open>x\<close>. With the shape of \<open>x\<close> itself as target, \<open>pad_right\<close> returns
  \<open>x\<close> unchanged.
\<close>

theorem pad_right_same_shape:
  assumes "well_formed x" and "rank x \<le> 8" and "constant_value dt v = Inr c"
  shows "pad_right dt x (shape x) v = Inr x"
proof -
  let ?ps = "map (\<lambda>d. (0, nat d)) (map2 (-) (map int (shape x)) (map int (shape x)))"
  have refl: "list_all2 (\<le>) (shape x) (shape x)" by (simp add: list_all2_refl)
  have fits: "\<not> list_ex (\<lambda>d. d < 0) (map2 (-) (map int (shape x)) (map int (shape x)))"
    and tgt: "padded_shape (shape x) ?ps = shape x"
    using right_padding_fits [OF refl] by simp_all
  have lx: "length (vals x) = prod_list (shape x)" using assms(1) by (simp add: well_formed_def)
  have "pad_data (shape x) ?ps c (vals x) = vals x"
    by (rule pad_data_zero [OF _ right_padding_zero lx]) simp
  then show ?thesis
    using fits tgt
    by (simp add: pad_right_unfold [of "shape x" x, OF _ assms(2,3)] rank_def Let_def)
qed

theorem pad_right_same_shape_witness:
  "pad_right dtype_int32 (Tensor [2, 2] [1, 2, 3, 4]) [2, 2] (PyInt 9)
     = Inr (Tensor [2, 2] [1, 2, 3, 4])
   \<and> pad_right dtype_float32 (Tensor [2] [Float 1, Float 2]) [2] (PyFloat (PyFinite (1 / 10)))
     = Inr (Tensor [2] [Float 1, Float 2])"
  using pad_right_same_shape [of "Tensor [2, 2] [1, 2, 3, 4]" dtype_int32 "PyInt 9" 9]
    pad_right_same_shape [of "Tensor [2] [Float 1, Float 2]" dtype_float32
      "PyFloat (PyFinite (1 / 10))" "round_f32 (1 / 10)"]
  by (simp add: well_formed_def rank_def constant_value_def dtype_int32_def dtype_float32_def)

text \<open>
  Claim C9 as stated fails: with the shape of \<open>x\<close> as target, the value one half on an
  integer tensor and a tensor with 9 axes both make the call raise.
\<close>

theorem pad_right_same_shape_refuses:
  "well_formed (Tensor [2] [1, 2 :: int])
   \<and> pad_right dtype_int32 (Tensor [2] [1, 2]) (shape (Tensor [2] [1, 2 :: int]))
        (PyFloat (PyFinite (1 / 2))) = Inl TypeError
   \<and> well_formed (Tensor [1, 1, 1, 1, 1, 1, 1, 1, 1] [5 :: int])
   \<and> pad_right dtype_int32 (Tensor [1, 1, 1, 1, 1, 1, 1, 1, 1] [5])
        (shape (Tensor [1, 1, 1, 1, 1, 1, 1, 1, 1] [5 :: int])) (PyInt 0)
       = Inl UnimplementedError"
proof -
  have "pad_right dtype_int32 (Tensor [2] [1, 2]) [2] (PyFloat (PyFinite (1 / 2)))
       = Inl TypeError"
    by (rule pad_right_conversion_error)
      (simp_all add: rank_def constant_value_def dtype_int32_def)
  moreover have "pad_right dtype_int32 (Tensor [1, 1, 1, 1, 1, 1, 1, 1, 1] [5])
        [1, 1, 1, 1, 1, 1, 1, 1, 1] (PyInt 0) = Inl UnimplementedError"
    by (rule pad_right_rank_error [where c = 0])
      (simp_all add: rank_def constant_value_def dtype_int32_def)
  ultimately show ?thesis by (simp add: well_formed_def)
qed

section \<open>\<^verbatim>\<open>get_candidate_values\<close>\<close>

text \<open>The example of the docstring and of the specification.\<close>

lemma get_candidate_values_example:
  "get_candidate_values (Tensor [3, 3] [0, 1, 2, 3, 4, 5, 6, 7, 8 :: int])
       (Tensor [3, 2] [0, 1, 0, 0, 2, 0])
     = Inr (Tensor [3, 2, 3] [0, 1, 2, 3, 4, 5, 0, 1, 2, 0, 1, 2, 6, 7, 8, 0, 1, 2])"
  by code_simp

text \<open>
  Claim C1, as amended. Let \<open>x\<close> have at least two axes, the leading ones of sizes
  \<open>lead\<close> and the last of size \<open>D\<close>; let \<open>candidate_ids\<close> have shape \<open>(n, K)\<close>
  and all its entries lie in \<open>[0, prod_list lead)\<close>, the number of rows of the
  flattened \<open>x\<close>. Then \<open>get_candidate_values\<close> returns a tensor of shape
  \<open>(n, K, D)\<close> whose row \<open>[i, j]\<close> is the row of \<open>batch_flatten x\<close> that
  \<open>candidate_ids[i][j]\<close> names.
\<close>

theorem get_candidate_values_gathers:
  assumes "well_formed x" and "shape x = lead @ [D]" and "lead \<noteq> []"
    and "shape c = [n, K]" and "well_formed c"
    and "list_all (\<lambda>v. 0 \<le> v \<and> v < int (prod_list lead)) (vals c)"
  shows "\<exists>pool y. batch_flatten x = Inr pool \<and> get_candidate_values x c = Inr y
           \<and> shape y = [n, K, D] \<and> well_formed y
           \<and> (\<forall>i j f. i < n \<and> j < K \<and> f < D \<longrightarrow>
                 get y [i, j, f] = get pool [nat (get c [i, j]), f])"
proof -
  let ?R = "if 0 < D then prod_list lead else prod_list (filter (\<lambda>d. 0 < d) lead)"
  let ?pool = "Tensor [?R, D] (vals x)"
  have flat: "batch_flatten x = Inr ?pool"
    using batch_flatten_general [OF assms(2)] .
  have lvs: "length (vals x) = ?R * D"
    using assms(1,2) by (simp add: well_formed_def)
  have lcs: "length (vals c) = n * K"
    using assms(4,5) by (simp add: well_formed_def)
  have range: "list_all (\<lambda>v. 0 \<le> v \<and> v < int ?R) (vals c)"
  proof (cases "0 < D \<or> 0 \<notin> set lead")
    case True
    then have "?R = prod_list lead" using filter_positive_all [of lead] by auto
    then show ?thesis using assms(6) by simp
  next
    case False
    then have "prod_list lead = 0" by (simp add: prod_list_zero_iff)
    then have "vals c = []" using assms(6) by (cases "vals c") auto
    then show ?thesis by simp
  qed
  from gather_candidates [OF flat lvs assms(4) lcs range]
  obtain y where y: "get_candidate_values x c = Inr y" "shape y = [n, K, D]" "well_formed y"
    and at: "\<And>i j f. i < n \<Longrightarrow> j < K \<Longrightarrow> f < D \<Longrightarrow>
               get y [i, j, f] = vals x ! (nat (vals c ! (i * K + j)) * D + f)"
    by blast
  have "get y [i, j, f] = get ?pool [nat (get c [i, j]), f]"
    if "i < n" "j < K" "f < D" for i j f
    using at [OF that] assms(4) by (simp add: get_def)
  with flat y show ?thesis by blast
qed

theorem get_candidate_values_gathers_witness:
  "get_candidate_values (Tensor [3, 3] [0, 1, 2, 3, 4, 5, 6, 7, 8 :: int])
       (Tensor [3, 2] [0, 1, 0, 0, 2, 0])
     = Inr (Tensor [3, 2, 3] [0, 1, 2, 3, 4, 5, 0, 1, 2, 0, 1, 2, 6, 7, 8, 0, 1, 2])
   \<and> (\<exists>pool y. batch_flatten (Tensor [3, 3] [0, 1, 2, 3, 4, 5, 6, 7, 8 :: int]) = Inr pool
         \<and> get_candidate_values (Tensor [3, 3] [0, 1, 2, 3, 4, 5, 6, 7, 8 :: int])
              (Tensor [3, 2] [0, 1, 0, 0, 2, 0]) = Inr y
         \<and> shape y = [3, 2, 3] \<and> well_formed y
         \<and> (\<forall>i j f. i < 3 \<and> j < 2 \<and> f < 3 \<longrightarrow>
               get y [i, j, f] = get pool [nat (get (Tensor [3, 2] [0, 1, 0, 0, 2, 0]) [i, j]), f]))"
  using get_candidate_values_gathers
    [of "Tensor [3, 3] [0, 1, 2, 3, 4, 5, 6, 7, 8 :: int]" "[3]" 3
        "Tensor [3, 2] [0, 1, 0, 0, 2, 0]" 3 2]
    get_candidate_values_example
  by (simp add: well_formed_def)

text \<open>
  Claim C1 as stated fails for a tensor with three axes: for \<open>x\<close> of shape
  \<open>(1, 2, 3)\<close> the two axes after the first hold 6 elements, and the result has rows of
  length 3, the size of the last axis.
\<close>

theorem get_candidate_values_last_axis_only:
  "well_formed (Tensor [1, 2, 3] [0, 1, 2, 3, 4, 5 :: int])
   \<and> well_formed (Tensor [1, 1] [0 :: int])
   \<and> list_all (\<lambda>v. 0 \<le> v \<and> v < 1) (vals (Tensor [1, 1] [0 :: int]))
   \<and> get_candidate_values (Tensor [1, 2, 3] [0, 1, 2, 3, 4, 5 :: int]) (Tensor [1, 1] [0])
       = Inr (Tensor [1, 1, 3] [0, 1, 2])
   \<and> [1, 1, 3] \<noteq> [1, 1, prod_list (tl (shape (Tensor [1, 2, 3] [0, 1, 2, 3, 4, 5 :: int])))]"
proof -
  have "get_candidate_values (Tensor [1, 2, 3] [0, 1, 2, 3, 4, 5 :: int]) (Tensor [1, 1] [0])
       = Inr (Tensor [1, 1, 3] [0, 1, 2])"
    by code_simp
  then show ?thesis by (simp add: well_formed_def)
qed

section \<open>\<^verbatim>\<open>reduce_mean_equal\<close>\<close>

text \<open>
  Claim C6, as amended. For two tensors of the same shape with at most \<open>2 ^ 24\<close>
  positions, in whatever order the runtime adds, \<open>reduce_mean_equal\<close> returns the scalar
  that is the \<^verbatim>\<open>float32\<close> nearest to the number of multi-indices at which the
  elements compare equal, divided by the number of all positions. Without positions the
  result is \<open>NaN\<close>.
\<close>

theorem reduce_mean_equal_fraction:
  assumes "shape x = shape y" and "well_formed x" and "well_formed y"
    and "valid_order order (prod_list (shape x))" and "prod_list (shape x) \<le> 2 ^ 24"
  shows "reduce_mean_equal order eq x y =
           Inr (Tensor []
             [if prod_list (shape x) = 0 then NaN
              else round_f32
                     (of_nat (card {idx. valid_index (shape x) idx \<and> eq (get x idx) (get y idx)})
                      / of_nat (prod_list (shape x)))])"
proof -
  have len: "length (vals x) = prod_list (shape x)" "length (vals y) = prod_list (shape x)"
    using assms by (simp_all add: well_formed_def)
  have "card {k. k < prod_list (shape x) \<and> eq (vals x ! k) (vals y ! k)}
          = card {idx. valid_index (shape x) idx
                 \<and> eq (vals x ! flat_index (shape x) idx) (vals y ! flat_index (shape x) idx)}"
    using card_positions [of "shape x" "\<lambda>k. eq (vals x ! k) (vals y ! k)"] by simp
  also have "\<dots> = card {idx. valid_index (shape x) idx \<and> eq (get x idx) (get y idx)}"
    using assms(1) by (simp add: get_def)
  finally show ?thesis
    using mean_of_matches [OF assms(1) len assms(4,5), of eq] by simp
qed

text \<open>The example of the specification: \<open>[1, 2, 3, 4]\<close> against \<open>[1, 0, 3, 0]\<close> gives one half.\<close>

lemma reduce_mean_equal_example:
  "reduce_mean_equal (Node (Node (Leaf 0) (Leaf 1)) (Node (Leaf 2) (Leaf 3))) (=)
       (Tensor [4] [1, 2, 3, 4 :: int]) (Tensor [4] [1, 0, 3, 0])
     = Inr (Tensor [] [Float (1 / 2)])"
  by code_simp

theorem reduce_mean_equal_fraction_witness:
  "reduce_mean_equal (Node (Node (Leaf 0) (Leaf 1)) (Node (Leaf 2) (Leaf 3))) (=)
       (Tensor [4] [1, 2, 3, 4 :: int]) (Tensor [4] [1, 0, 3, 0])
     = Inr (Tensor [] [Float (1 / 2)])
   \<and> round_f32 (of_nat (card {idx. valid_index [4] idx
          \<and> get (Tensor [4] [1, 2, 3, 4 :: int]) idx = get (Tensor [4] [1, 0, 3, 0]) idx}) / 4)
     = Float (1 / 2)"
proof -
  have order: "valid_order (Node (Node (Leaf 0) (Leaf 1)) (Node (Leaf 2) (Leaf 3))) 4"
    by code_simp
  show ?thesis
    using reduce_mean_equal_fraction
        [of "Tensor [4] [1, 2, 3, 4 :: int]" "Tensor [4] [1, 0, 3, 0]"
            "Node (Node (Leaf 0) (Leaf 1)) (Node (Leaf 2) (Leaf 3))" "(=)"]
      reduce_mean_equal_example order
    by (simp add: well_formed_def)
qed

text \<open>
  Claim C6 as stated fails: one match in three positions gives the \<^verbatim>\<open>float32\<close> nearest
  to one third, which is not one third.
\<close>

theorem reduce_mean_equal_third:
  "reduce_mean_equal (Node (Leaf 0) (Node (Leaf 1) (Leaf 2))) (=)
       (Tensor [3] [1, 2, 3 :: int]) (Tensor [3] [1, 0, 0])
     = Inr (Tensor [] [Float (11184811 / 33554432)])
   \<and> Float (11184811 / 33554432) \<noteq> Float (1 / 3)"
proof -
  have "reduce_mean_equal (Node (Leaf 0) (Node (Leaf 1) (Leaf 2))) (=)
       (Tensor [3] [1, 2, 3 :: int]) (Tensor [3] [1, 0, 0])
     = Inr (Tensor [] [Float (11184811 / 33554432)])"
    by code_simp
  then show ?thesis by simp
qed




text \<open>
  Claim C10. \<open>reduce_mean_equal\<close> is commutative, for elements compared by identity
  (integers, booleans) and for floating-point elements compared by \<open>float_equal\<close>.
\<close>

theorem reduce_mean_equal_commutative:
  "reduce_mean_equal order (=) x y = reduce_mean_equal order (=) y x
   \<and> reduce_mean_equal order' float_equal u v = reduce_mean_equal order' float_equal v u"
proof -
  have "tf_binary (=) x y = tf_binary (=) y x"
    by (rule tf_binary_commute) auto
  moreover have "tf_binary float_equal u v = tf_binary float_equal v u"
    by (rule tf_binary_commute) (rule float_equal_commute)
  ultimately show ?thesis
    by (simp add: reduce_mean_equal_def tf_equal_def)
qed

theorem reduce_mean_equal_commutative_witness:
  "reduce_mean_equal (Node (Node (Leaf 0) (Leaf 1)) (Node (Leaf 2) (Leaf 3))) (=)
       (Tensor [4] [1, 2, 3, 4 :: int]) (Tensor [4] [1, 0, 3, 0 :: int])
     = reduce_mean_equal (Node (Node (Leaf 0) (Leaf 1)) (Node (Leaf 2) (Leaf 3))) (=)
         (Tensor [4] [1, 0, 3, 0 :: int]) (Tensor [4] [1, 2, 3, 4 :: int])
   \<and> reduce_mean_equal (Node (Leaf 0) (Leaf 1)) float_equal
       (Tensor [2] [NaN, Float 1]) (Tensor [2] [Float 1, Float 1])
     = reduce_mean_equal (Node (Leaf 0) (Leaf 1)) float_equal
         (Tensor [2] [Float 1, Float 1]) (Tensor [2] [NaN, Float 1])"
  using reduce_mean_equal_commutative
    [of "Node (Node (Leaf 0) (Leaf 1)) (Node (Leaf 2) (Leaf 3))"
        "Tensor [4] [1, 2, 3, 4 :: int]" "Tensor [4] [1, 0, 3, 0 :: int]"
        "Node (Leaf 0) (Leaf 1)"
        "Tensor [2] [NaN, Float 1]" "Tensor [2] [Float 1, Float 1]"]
  by simp

end
